theory Spec2Isabelle
  imports Complex_Main "HOL-Library.Sublist" "HOL-Library.List_Lexorder" "HOL-Library.Char_ord"
begin

section \<open>Python values\<close>

text \<open>
  The values that flow through \<^verbatim>\<open>app.py\<close>: \<^verbatim>\<open>None\<close>, booleans, integers, floats,
  strings, lists and dicts. A dict is an association list in insertion order, as Python
  keeps it; a well-formed dict has distinct keys. Floats are only carried around by the
  code under study, never computed with, so they are stored as their real value.

  A Python \<^verbatim>\<open>str\<close> is a sequence of code points. The model uses \<^typ>\<open>string\<close>, whose
  characters are the code points below 256 (Latin-1); the character classes below are
  the ones CPython assigns to exactly these code points.
\<close>

datatype pyval =
    PNone
  | PBool bool
  | PInt int
  | PFloat real
  | PStr string
  | PList "pyval list"
  | PDict "(string \<times> pyval) list"

type_synonym pydict = "(string \<times> pyval) list"

text \<open>\<^verbatim>\<open>str.isspace\<close> on one code point; \<^verbatim>\<open>str.strip()\<close> removes these at both ends.\<close>

definition isspace :: "char \<Rightarrow> bool" where
  "isspace c = (of_char c \<in> set [9, 10, 11, 12, 13, 28, 29, 30, 31, 32, 133, 160 :: nat])"

definition strip :: "string \<Rightarrow> string" where
  "strip s = rev (dropWhile isspace (rev (dropWhile isspace s)))"

text \<open>\<^verbatim>\<open>d.get(k)\<close> and \<^verbatim>\<open>d[k] = v\<close>: an existing key keeps its position, a new key goes last.\<close>

fun dict_get :: "(string \<times> 'v) list \<Rightarrow> string \<Rightarrow> 'v option" where
  "dict_get [] k = None"
| "dict_get ((k', v) # d) k = (if k' = k then Some v else dict_get d k)"

fun dict_set :: "(string \<times> 'v) list \<Rightarrow> string \<Rightarrow> 'v \<Rightarrow> (string \<times> 'v) list" where
  "dict_set [] k v = [(k, v)]"
| "dict_set ((k', v') # d) k v = (if k' = k then (k, v) # d else (k', v') # dict_set d k v)"

definition dict_keys :: "(string \<times> 'v) list \<Rightarrow> string set" where
  "dict_keys d = fst ` set d"

text \<open>\<^verbatim>\<open>sep.join(xs)\<close>, \<^verbatim>\<open>str(n)\<close> of a natural number, and \<^verbatim>\<open>w in s\<close> on strings.\<close>

definition str_join :: "string \<Rightarrow> string list \<Rightarrow> string" where
  "str_join sep xs = (case xs of [] \<Rightarrow> [] | x # r \<Rightarrow> x @ concat (map (\<lambda>y. sep @ y) r))"

definition digit_char :: "nat \<Rightarrow> char" where
  "digit_char n = char_of (48 + n)"

fun str_nat :: "nat \<Rightarrow> string" where
  "str_nat n = (if n < 10 then [digit_char n] else str_nat (n div 10) @ [digit_char (n mod 10)])"

fun str_contains :: "string \<Rightarrow> string \<Rightarrow> bool" where
  "str_contains [] w = (w = [])"
| "str_contains (c # s) w = (prefix w (c # s) \<or> str_contains s w)"

section \<open>Field merge: \<^verbatim>\<open>merge_manual_fields\<close>\<close>

text \<open>
  \<^verbatim>\<open>
  def merge_manual_fields(base, manual):
      merged = dict(base)
      for k, v in manual.items():
          if v is None or (isinstance(v, str) and v.strip() == ""):
              continue
          if isinstance(v, dict) and isinstance(merged.get(k), dict):
              merged[k] = merge_manual_fields(merged.get(k, {}), v)
          else:
              merged[k] = v
      return merged
  \<close>
  The first argument of the model is \<^verbatim>\<open>merged\<close>, which starts as the copy of \<^verbatim>\<open>base\<close>;
  the second is what is left of \<^verbatim>\<open>manual.items()\<close>.
\<close>

fun is_empty_value :: "pyval \<Rightarrow> bool" where
  "is_empty_value PNone = True"
| "is_empty_value (PStr s) = (strip s = [])"
| "is_empty_value _ = False"

fun merge_manual_fields :: "pydict \<Rightarrow> pydict \<Rightarrow> pydict" where
  "merge_manual_fields merged [] = merged"
| "merge_manual_fields merged ((k, v) # manual) =
     (if is_empty_value v then merge_manual_fields merged manual
      else (case (v, dict_get merged k) of
              (PDict d, Some (PDict b)) \<Rightarrow>
                 merge_manual_fields (dict_set merged k (PDict (merge_manual_fields b d))) manual
            | _ \<Rightarrow> merge_manual_fields (dict_set merged k v) manual))"

text \<open>The value that one pass of the loop body stores at the key.\<close>

definition stored_value :: "pyval \<Rightarrow> pyval option \<Rightarrow> pyval" where
  "stored_value v cur =
     (case (v, cur) of
        (PDict d, Some (PDict b)) \<Rightarrow> PDict (merge_manual_fields b d)
      | _ \<Rightarrow> v)"

text \<open>Well-formed values: every dict, at any depth, has distinct keys.\<close>

fun wf_value :: "pyval \<Rightarrow> bool" where
  "wf_value (PDict d) = (distinct (map fst d) \<and> list_all (\<lambda>kv. wf_value (snd kv)) d)"
| "wf_value (PList xs) = list_all wf_value xs"
| "wf_value _ = True"

text \<open>
  Hereditary key preservation: every key of the first dict is a key of the second, and
  where both hold a dict at that key, the same is true one level down.
\<close>

fun keys_kept :: "pyval \<Rightarrow> pyval \<Rightarrow> bool" where
  "keys_kept (PDict a) (PDict r) =
     list_all (\<lambda>kv. case dict_get r (fst kv) of None \<Rightarrow> False
                     | Some w \<Rightarrow> keys_kept (snd kv) w) a"
| "keys_kept _ _ = True"

section \<open>Schema validation: \<^verbatim>\<open>validate_schema\<close>\<close>

text \<open>
  \<^verbatim>\<open>
  def validate_schema(tool, data):
      """Return list of validation errors (strings). Empty if OK."""
      errors = []
      if validate is None or Draft7Validator is None:
          errors.append("jsonschema package not available in runtime. ...")
          return errors
      schema = SCHEMAS.get(tool, SCHEMAS["other"])
      validator = Draft7Validator(schema)
      for err in sorted(validator.iter_errors(data), key=str):
          path = ".".join([str(p) for p in err.path]) or "(root)"
          errors.append(f"{path}: {err.message}")
      return errors
  \<close>
  An error of the validator carries its path (keys and indices), its message and its
  \<^verbatim>\<open>str\<close>, which is the sort key.
\<close>

datatype path_elem = PathKey string | PathIndex nat

fun str_path_elem :: "path_elem \<Rightarrow> string" where
  "str_path_elem (PathKey s) = s"
| "str_path_elem (PathIndex i) = str_nat i"

record validation_error =
  err_path :: "path_elem list"
  err_message :: string
  err_str :: string

text \<open>
  The two names the module imports from \<^verbatim>\<open>jsonschema\<close>; each is \<^verbatim>\<open>None\<close> when the
  import failed. \<^verbatim>\<open>validate\<close> is only tested for presence. A present \<^verbatim>\<open>Draft7Validator\<close>
  is the function from a schema and the data to the errors \<^verbatim>\<open>iter_errors\<close> yields, in
  the order it yields them.
\<close>

record jsonschema_runtime =
  validate_name :: "unit option"
  Draft7Validator :: "(pyval \<Rightarrow> pyval \<Rightarrow> validation_error list) option"

definition schema_veo3_video :: pyval where
  "schema_veo3_video = PDict
     [(''type'', PStr ''object''),
      (''required'', PList [PStr ''scene_description'', PStr ''duration'',
                            PStr ''aspect_ratio'', PStr ''style'']),
      (''properties'', PDict
         [(''scene_description'', PDict [(''type'', PStr ''string'')]),
          (''camera_movement'', PDict [(''type'', PStr ''string'')]),
          (''lighting'', PDict [(''type'', PStr ''string'')]),
          (''style'', PDict [(''type'', PStr ''string'')]),
          (''duration'', PDict [(''type'', PStr ''number''), (''minimum'', PInt 0)]),
          (''aspect_ratio'', PDict [(''type'', PStr ''string'')]),
          (''audio'', PDict
             [(''type'', PStr ''object''),
              (''properties'', PDict
                 [(''music'', PDict [(''type'', PStr ''boolean'')]),
                  (''narration'', PDict [(''type'', PStr ''boolean'')])]),
              (''additionalProperties'', PBool False)]),
          (''meta'', PDict [(''type'', PStr ''object'')])]),
      (''additionalProperties'', PBool True)]"

definition schema_image :: pyval where
  "schema_image = PDict
     [(''type'', PStr ''object''),
      (''required'', PList [PStr ''prompt'', PStr ''size'', PStr ''quality'']),
      (''properties'', PDict
         [(''prompt'', PDict [(''type'', PStr ''string'')]),
          (''style'', PDict [(''type'', PStr ''string'')]),
          (''quality'', PDict [(''type'', PStr ''string'')]),
          (''size'', PDict
             [(''type'', PStr ''string''),
              (''pattern'', PStr (''^'' @ [CHR 0x5C] @ ''d{2,4}x'' @ [CHR 0x5C] @ ''d{2,4}$''))]),
          (''negative_prompt'', PDict [(''type'', PStr ''string'')]),
          (''composition'', PDict [(''type'', PStr ''string'')]),
          (''meta'', PDict [(''type'', PStr ''object'')])]),
      (''additionalProperties'', PBool True)]"

definition schema_code :: pyval where
  "schema_code = PDict
     [(''type'', PStr ''object''),
      (''required'', PList [PStr ''task'', PStr ''language'', PStr ''requirements'']),
      (''properties'', PDict
         [(''task'', PDict [(''type'', PStr ''string'')]),
          (''language'', PDict [(''type'', PStr ''string'')]),
          (''requirements'', PDict
             [(''type'', PStr ''array''), (''items'', PDict [(''type'', PStr ''string'')])]),
          (''constraints'', PDict [(''type'', PStr ''object'')]),
          (''output_format'', PDict [(''type'', PStr ''string'')]),
          (''meta'', PDict [(''type'', PStr ''object'')])]),
      (''additionalProperties'', PBool True)]"

definition schema_other :: pyval where
  "schema_other = PDict
     [(''type'', PStr ''object''),
      (''properties'', PDict
         [(''prompt'', PDict [(''type'', PStr ''string'')]),
          (''style'', PDict [(''type'', PStr ''string'')]),
          (''constraints'', PDict [(''type'', PList [PStr ''array'', PStr ''string''])]),
          (''meta'', PDict [(''type'', PStr ''object'')])]),
      (''additionalProperties'', PBool True)]"

definition SCHEMAS :: pydict where
  "SCHEMAS = [(''veo3_video'', schema_veo3_video), (''image'', schema_image),
              (''code'', schema_code), (''other'', schema_other)]"

definition validation_unavailable :: string where
  "validation_unavailable =
     ''jsonschema package not available in runtime. Install '' @ [CHR 0x27] @ ''jsonschema''
       @ [CHR 0x27] @ '' to enable validation.''"

definition format_error :: "validation_error \<Rightarrow> string" where
  "format_error err =
     (let joined = str_join ''.'' (map str_path_elem (err_path err));
          path = (if joined = [] then ''(root)'' else joined)
      in path @ '': '' @ err_message err)"

definition validate_schema :: "jsonschema_runtime \<Rightarrow> string \<Rightarrow> pyval \<Rightarrow> string list" where
  "validate_schema rt tool data =
     (case (validate_name rt, Draft7Validator rt) of
        (Some _, Some iter_errors) \<Rightarrow>
          (let schema = (case dict_get SCHEMAS tool of Some s \<Rightarrow> s | None \<Rightarrow> schema_other)
           in map format_error (sort_key err_str (iter_errors schema data)))
      | _ \<Rightarrow> [validation_unavailable])"

section \<open>The standard library's \<^verbatim>\<open>textwrap.shorten\<close>\<close>

text \<open>
  \<^verbatim>\<open>natural_to_template\<close> builds three of its fields with
  \<^verbatim>\<open>textwrap.shorten(t, width=..., placeholder="...")\<close>. The library function is
  \<^verbatim>\<open>
  def shorten(text, width, **kwargs):
      w = TextWrapper(width=width, max_lines=1, **kwargs)
      return w.fill(' '.join(text.strip().split()))
  \<close>
  and the model follows CPython's \<^verbatim>\<open>textwrap.py\<close> for a \<^verbatim>\<open>TextWrapper\<close> built this way:
  \<^verbatim>\<open>max_lines=1\<close>, empty indents, and the defaults \<^verbatim>\<open>expand_tabs\<close>, \<^verbatim>\<open>replace_whitespace\<close>,
  \<^verbatim>\<open>drop_whitespace\<close>, \<^verbatim>\<open>break_long_words\<close>, \<^verbatim>\<open>break_on_hyphens\<close> all true and
  \<^verbatim>\<open>fix_sentence_endings\<close> false.
\<close>

subsection \<open>Collapsing whitespace: \<^verbatim>\<open>' '.join(text.strip().split())\<close>\<close>

text \<open>\<^verbatim>\<open>str.split()\<close> with no argument: the maximal runs of characters that are not whitespace.\<close>

fun split_words :: "string \<Rightarrow> string \<Rightarrow> string list" where
  "split_words w [] = (if w = [] then [] else [rev w])"
| "split_words w (c # s) =
     (if isspace c then (if w = [] then split_words [] s else rev w # split_words [] s)
      else split_words (c # w) s)"

definition str_split :: "string \<Rightarrow> string list" where
  "str_split s = split_words [] s"

definition collapse_whitespace :: "string \<Rightarrow> string" where
  "collapse_whitespace text = str_join '' '' (str_split (strip text))"

subsection \<open>\<^verbatim>\<open>_munge_whitespace\<close>\<close>

text \<open>The wrapper's own whitespace, \<^verbatim>\<open>'\t\n\x0b\x0c\r '\<close>.\<close>

definition ascii_whitespace :: "char \<Rightarrow> bool" where
  "ascii_whitespace c = (of_char c \<in> set [9, 10, 11, 12, 13, 32 :: nat])"

text \<open>\<^verbatim>\<open>str.expandtabs(8)\<close>: the column restarts after a line feed or carriage return.\<close>

fun expandtabs :: "nat \<Rightarrow> string \<Rightarrow> string" where
  "expandtabs col [] = []"
| "expandtabs col (c # s) =
     (if c = CHR 0x09 then
        (let incr = 8 - col mod 8 in replicate incr CHR '' '' @ expandtabs (col + incr) s)
      else c # expandtabs (if c = CHR 0x0A \<or> c = CHR 0x0D then 0 else col + 1) s)"

definition munge_whitespace :: "string \<Rightarrow> string" where
  "munge_whitespace text =
     map (\<lambda>c. if ascii_whitespace c then CHR '' '' else c) (expandtabs 0 text)"

subsection \<open>\<^verbatim>\<open>_split\<close>: the chunks of \<^verbatim>\<open>wordsep_re\<close>\<close>

text \<open>
  \<^verbatim>\<open>
  word_punct = r'[\w!"\'&.,?]'
  letter = r'[^\d\W]'
  wordsep_re = re.compile(r'''
      ( # any whitespace
        %(ws)s+
      | # em-dash between words
        (?<=%(wp)s) -{2,} (?=\w)
      | # word, possibly hyphenated
        %(nws)s+? (?:
          # hyphenated word
            -(?: (?<=%(lt)s{2}-) | (?<=%(lt)s-%(lt)s-))
            (?= %(lt)s -? %(lt)s)
          | # end of word
            (?=%(ws)s|\Z)
          | # em-dash
            (?<=%(wp)s) (?=-{2,}\w)
          )
      )''', re.VERBOSE)
  chunks = self.wordsep_re.split(text)
  chunks = [c for c in chunks if c]
  \<close>
  The pattern matches at every position of a non-empty rest of the text (whitespace by
  its first alternative, anything else by its third), so the pieces between matches are
  empty and the chunks are the successive matches. The functions below compute the
  length of the match at a position from \<open>behind\<close>, the text to the left of the position
  in reverse, and the text from the position on.
\<close>

definition re_digit :: "char \<Rightarrow> bool" where
  "re_digit c = (48 \<le> (of_char c :: nat) \<and> (of_char c :: nat) \<le> 57)"

definition re_word :: "char \<Rightarrow> bool" where
  "re_word c =
     (let n = of_char c :: nat in
        (48 \<le> n \<and> n \<le> 57) \<or> (65 \<le> n \<and> n \<le> 90) \<or> n = 95 \<or> (97 \<le> n \<and> n \<le> 122)
        \<or> n \<in> set [170, 178, 179, 181, 185, 186, 188, 189, 190]
        \<or> (192 \<le> n \<and> n \<le> 214) \<or> (216 \<le> n \<and> n \<le> 246) \<or> (248 \<le> n \<and> n \<le> 255))"

definition re_letter :: "char \<Rightarrow> bool" where
  "re_letter c = (re_word c \<and> \<not> re_digit c)"

definition word_punct :: "char \<Rightarrow> bool" where
  "word_punct c = (re_word c \<or> of_char c \<in> set [33, 34, 38, 39, 44, 46, 63 :: nat])"

text \<open>\<^verbatim>\<open>-{2,}(?=\w)\<close> at the head of the text: the length of the run of hyphens.\<close>

definition hyphens_then_word :: "string \<Rightarrow> nat option" where
  "hyphens_then_word s =
     (let n = length (takeWhile (\<lambda>c. c = CHR ''-'') s) in
        if 2 \<le> n \<and> (case drop n s of [] \<Rightarrow> False | c # _ \<Rightarrow> re_word c) then Some n else None)"

text \<open>The two lookbehinds, read after the hyphen is consumed, and the lookahead behind it.\<close>

fun hyphen_lookbehind :: "string \<Rightarrow> bool" where
  "hyphen_lookbehind (b1 # b2 # b3 # _) =
     (re_letter b1 \<and> (re_letter b2 \<or> (b2 = CHR ''-'' \<and> re_letter b3)))"
| "hyphen_lookbehind [b1, b2] = (re_letter b1 \<and> re_letter b2)"
| "hyphen_lookbehind _ = False"

fun hyphen_lookahead :: "string \<Rightarrow> bool" where
  "hyphen_lookahead (a1 # a2 # a3 # _) =
     (re_letter a1 \<and> ((a2 = CHR ''-'' \<and> re_letter a3) \<or> re_letter a2))"
| "hyphen_lookahead [a1, a2] = (re_letter a1 \<and> re_letter a2)"
| "hyphen_lookahead _ = False"

text \<open>
  The lazy \<^verbatim>\<open>[^ws]+?\<close> of the third alternative, with at least one character consumed:
  how many more characters the match takes from here.
\<close>

fun word_end :: "string \<Rightarrow> string \<Rightarrow> nat" where
  "word_end behind [] = 0"
| "word_end behind (c # r) =
     (if c = CHR ''-'' \<and> hyphen_lookbehind behind \<and> hyphen_lookahead r then 1
      else if ascii_whitespace c then 0
      else if (case behind of [] \<Rightarrow> False | b # _ \<Rightarrow> word_punct b)
              \<and> hyphens_then_word (c # r) \<noteq> None then 0
      else Suc (word_end (c # behind) r))"

definition chunk_length :: "string \<Rightarrow> char \<Rightarrow> string \<Rightarrow> nat" where
  "chunk_length behind c r =
     (if ascii_whitespace c then length (takeWhile ascii_whitespace (c # r))
      else if (case behind of [] \<Rightarrow> False | b # _ \<Rightarrow> word_punct b)
              \<and> hyphens_then_word (c # r) \<noteq> None
      then (case hyphens_then_word (c # r) of Some n \<Rightarrow> n | None \<Rightarrow> 0)
      else Suc (word_end (c # behind) r))"

lemma chunk_length_pos: "0 < chunk_length behind c r"
  by (auto simp: chunk_length_def hyphens_then_word_def Let_def split: option.splits if_splits)

function split_chunks :: "string \<Rightarrow> string \<Rightarrow> string list" where
  "split_chunks behind [] = []"
| "split_chunks behind (c # r) =
     (let n = chunk_length behind c r; chunk = take n (c # r)
      in chunk # split_chunks (rev chunk @ behind) (drop n (c # r)))"
  by pat_completeness auto
termination
proof (relation "measure (\<lambda>(behind, rest). length rest)")
  show "wf (measure (\<lambda>(behind, rest). length rest))" by simp
next
  fix behind c r n chunk
  assume "n = chunk_length behind c r"
  then have "0 < n" by (simp add: chunk_length_pos)
  then show "((rev chunk @ behind, drop n (c # r)), behind, c # r)
               \<in> measure (\<lambda>(behind, rest). length rest)"
    by (cases n) auto
qed

subsection \<open>\<^verbatim>\<open>_wrap_chunks\<close> with \<^verbatim>\<open>max_lines=1\<close>\<close>

text \<open>
  The inner loop that moves chunks onto the current line while they fit:
  \<^verbatim>\<open>
  while chunks:
      l = len(chunks[-1])
      if cur_len + l <= width:
          cur_line.append(chunks.pop())
          cur_len += l
      else:
          break
  \<close>
  The library keeps the chunks reversed and pops from the end; the model keeps them in
  reading order and takes from the front.
\<close>

fun take_fitting :: "nat \<Rightarrow> string list \<Rightarrow> nat \<Rightarrow> string list \<Rightarrow> string list \<times> nat \<times> string list" where
  "take_fitting width cur_line cur_len [] = (cur_line, cur_len, [])"
| "take_fitting width cur_line cur_len (c # chunks) =
     (if cur_len + length c \<le> width
      then take_fitting width (cur_line @ [c]) (cur_len + length c) chunks
      else (cur_line, cur_len, c # chunks))"

text \<open>\<^verbatim>\<open>s.rfind(c)\<close>: the last index of the character, if any.\<close>

fun rfind :: "char \<Rightarrow> string \<Rightarrow> nat option" where
  "rfind c [] = None"
| "rfind c (x # xs) =
     (case rfind c xs of Some i \<Rightarrow> Some (Suc i)
      | None \<Rightarrow> if x = c then Some 0 else None)"

text \<open>
  \<^verbatim>\<open>
  def _handle_long_word(self, reversed_chunks, cur_line, cur_len, width):
      if width < 1:
          space_left = 1
      else:
          space_left = width - cur_len
      if self.break_long_words:
          end = space_left
          chunk = reversed_chunks[-1]
          if self.break_on_hyphens and len(chunk) > space_left:
              hyphen = chunk.rfind('-', 0, space_left)
              if hyphen > 0 and any(c != '-' for c in chunk[:hyphen]):
                  end = hyphen + 1
          cur_line.append(chunk[:end])
          reversed_chunks[-1] = chunk[end:]
  \<close>
  The result is the new current line and what is left of the chunk.
\<close>

definition handle_long_word :: "string \<Rightarrow> string list \<Rightarrow> nat \<Rightarrow> nat \<Rightarrow> string list \<times> string" where
  "handle_long_word chunk cur_line cur_len width =
     (let space_left = (if width < 1 then 1 else width - cur_len);
          cut = (if length chunk > space_left then
                   (case rfind CHR ''-'' (take space_left chunk) of
                      Some hyphen \<Rightarrow>
                        if 0 < hyphen \<and> list_ex (\<lambda>c. c \<noteq> CHR ''-'') (take hyphen chunk)
                        then hyphen + 1 else space_left
                    | None \<Rightarrow> space_left)
                 else space_left)
      in (cur_line @ [take cut chunk], drop cut chunk))"

text \<open>
  The loop that makes room for the placeholder:
  \<^verbatim>\<open>
  while cur_line:
      if (cur_line[-1].strip() and cur_len + len(self.placeholder) <= width):
          cur_line.append(self.placeholder)
          lines.append(indent + ''.join(cur_line))
          break
      cur_len -= len(cur_line[-1])
      del cur_line[-1]
  else: ...
  \<close>
  \<open>None\<close> stands for the loop running out of chunks (the \<^verbatim>\<open>else\<close> of the \<^verbatim>\<open>while\<close>).
  The current line is passed in reverse, its last chunk first.
\<close>

fun fit_placeholder :: "nat \<Rightarrow> string \<Rightarrow> string list \<Rightarrow> nat \<Rightarrow> string option" where
  "fit_placeholder width placeholder [] cur_len = None"
| "fit_placeholder width placeholder (c # rev_line) cur_len =
     (if strip c \<noteq> [] \<and> cur_len + length placeholder \<le> width
      then Some (concat (rev (c # rev_line)) @ placeholder)
      else fit_placeholder width placeholder rev_line (cur_len - length c))"

definition lstrip :: "string \<Rightarrow> string" where
  "lstrip s = dropWhile isspace s"

definition rstrip :: "string \<Rightarrow> string" where
  "rstrip s = rev (dropWhile isspace (rev s))"

text \<open>
  One pass of the outer \<^verbatim>\<open>while chunks:\<close> loop, for a non-empty list of chunks, in the
  order of the source. First the part that fills the current line:
  \<^verbatim>\<open>
  if self.drop_whitespace and chunks[-1].strip() == '' and lines:
      del chunks[-1]
  while chunks: ...                       # take_fitting
  if chunks and len(chunks[-1]) > width:
      self._handle_long_word(chunks, cur_line, cur_len, width)
      cur_len = sum(map(len, cur_line))
  if self.drop_whitespace and cur_line and cur_line[-1].strip() == '':
      cur_len -= len(cur_line[-1])
      del cur_line[-1]
  \<close>
\<close>

definition drop_leading_space :: "string list \<Rightarrow> string list \<Rightarrow> string list" where
  "drop_leading_space lines chunks =
     (if strip (hd chunks) = [] \<and> lines \<noteq> [] then tl chunks else chunks)"

definition break_long_word :: "nat \<Rightarrow> string list \<times> nat \<times> string list \<Rightarrow> string list \<times> nat \<times> string list" where
  "break_long_word width st =
     (case st of (cur_line, cur_len, chunks) \<Rightarrow>
        if chunks \<noteq> [] \<and> length (hd chunks) > width then
          (case handle_long_word (hd chunks) cur_line cur_len width of
             (cl, left) \<Rightarrow> (cl, sum_list (map length cl), left # tl chunks))
        else (cur_line, cur_len, chunks))"

definition drop_trailing_space :: "string list \<times> nat \<times> string list \<Rightarrow> string list \<times> nat \<times> string list" where
  "drop_trailing_space st =
     (case st of (cur_line, cur_len, chunks) \<Rightarrow>
        if cur_line \<noteq> [] \<and> strip (last cur_line) = []
        then (butlast cur_line, cur_len - length (last cur_line), chunks)
        else (cur_line, cur_len, chunks))"

definition fill_line :: "nat \<Rightarrow> string list \<Rightarrow> string list \<Rightarrow> string list \<times> nat \<times> string list" where
  "fill_line width lines chunks =
     drop_trailing_space
       (break_long_word width (take_fitting width [] 0 (drop_leading_space lines chunks)))"

text \<open>
  Then the decision. The pass either ends the loop with the final lines (the \<^verbatim>\<open>break\<close>
  after the placeholder) or goes round again with new lines and the chunks left over:
  \<^verbatim>\<open>
  if cur_line:
      if (self.max_lines is None or len(lines) + 1 < self.max_lines or
          (not chunks or self.drop_whitespace and len(chunks) == 1 and
           not chunks[0].strip()) and cur_len <= width):
          lines.append(indent + ''.join(cur_line))
      else:
          while cur_line: ...             # fit_placeholder
          else:
              if lines:
                  prev_line = lines[-1].rstrip()
                  if (len(prev_line) + len(self.placeholder) <= self.width):
                      lines[-1] = prev_line + self.placeholder
                      break
              lines.append(indent + self.placeholder.lstrip())
          break
  \<close>
\<close>

datatype wrap_step = Break "string list" | Again "string list" "string list"

definition wrap_pass :: "nat \<Rightarrow> string \<Rightarrow> string list \<Rightarrow> string list \<Rightarrow> wrap_step" where
  "wrap_pass width placeholder lines chunks =
     (case fill_line width lines chunks of (cur_line, cur_len, chunks') \<Rightarrow>
        if cur_line \<noteq> [] then
          (if (chunks' = [] \<or> (length chunks' = 1 \<and> strip (hd chunks') = []))
              \<and> cur_len \<le> width
           then Again (lines @ [concat cur_line]) chunks'
           else (case fit_placeholder width placeholder (rev cur_line) cur_len of
                   Some line \<Rightarrow> Break (lines @ [line])
                 | None \<Rightarrow>
                     if lines \<noteq> []
                        \<and> length (rstrip (last lines)) + length placeholder \<le> width
                     then Break (butlast lines @ [rstrip (last lines) @ placeholder])
                     else Break (lines @ [lstrip placeholder])))
        else Again lines chunks')"

text \<open>
  Every pass shortens the chunks, counted as their characters plus their number, so the
  outer loop ends.
\<close>

definition chunks_weight :: "string list \<Rightarrow> nat" where
  "chunks_weight chunks = sum_list (map length chunks) + length chunks"

lemma take_fitting_weight:
  "take_fitting width cur_line cur_len chunks = (cur_line', cur_len', chunks') \<Longrightarrow>
     (chunks' = chunks \<and> cur_line' = cur_line \<and> cur_len' = cur_len
        \<and> (chunks \<noteq> [] \<longrightarrow> width < cur_len + length (hd chunks)))
     \<or> chunks_weight chunks' < chunks_weight chunks"
proof (induction chunks arbitrary: cur_line cur_len)
  case Nil
  then show ?case by simp
next
  case (Cons c chunks)
  show ?case
  proof (cases "cur_len + length c \<le> width")
    case True
    with Cons.prems
    have "take_fitting width (cur_line @ [c]) (cur_len + length c) chunks
            = (cur_line', cur_len', chunks')" by simp
    from Cons.IH [OF this] have "chunks_weight chunks' \<le> chunks_weight chunks"
      by auto
    then show ?thesis by (simp add: chunks_weight_def)
  next
    case False
    with Cons.prems show ?thesis by auto
  qed
qed

lemma handle_long_word_left:
  "handle_long_word chunk cur_line cur_len width = (cl, left) \<Longrightarrow>
     length left \<le> length chunk \<and> (cur_len = 0 \<and> chunk \<noteq> [] \<longrightarrow> length left < length chunk)"
  by (auto simp: handle_long_word_def Let_def split: option.splits if_splits)

lemma break_long_word_weight:
  assumes "break_long_word width (cur_line, cur_len, chunks) = (cur_line', cur_len', chunks')"
  shows "chunks_weight chunks' \<le> chunks_weight chunks"
    and "chunks \<noteq> [] \<Longrightarrow> width < length (hd chunks) \<Longrightarrow> cur_len = 0
           \<Longrightarrow> chunks_weight chunks' < chunks_weight chunks"
proof -
  show "chunks_weight chunks' \<le> chunks_weight chunks"
  proof (cases "chunks \<noteq> [] \<and> length (hd chunks) > width")
    case True
    then obtain c cs where c: "chunks = c # cs" by (cases chunks) auto
    obtain cl left where h: "handle_long_word c cur_line cur_len width = (cl, left)"
      by (cases "handle_long_word c cur_line cur_len width") auto
    from assms True c h have "chunks' = left # cs" by (simp add: break_long_word_def)
    with handle_long_word_left [OF h] c show ?thesis by (simp add: chunks_weight_def)
  next
    case False
    with assms have "chunks' = chunks" by (auto simp: break_long_word_def)
    then show ?thesis by simp
  qed
next
  assume ne: "chunks \<noteq> []" and long: "width < length (hd chunks)" and z: "cur_len = 0"
  from ne obtain c cs where c: "chunks = c # cs" by (cases chunks) auto
  obtain cl left where h: "handle_long_word c cur_line cur_len width = (cl, left)"
    by (cases "handle_long_word c cur_line cur_len width") auto
  from assms long c h have ch: "chunks' = left # cs" by (simp add: break_long_word_def)
  from long c have "c \<noteq> []" by auto
  with handle_long_word_left [OF h] z have "length left < length c" by simp
  with ch c show "chunks_weight chunks' < chunks_weight chunks" by (simp add: chunks_weight_def)
qed

lemma drop_leading_space_weight:
  "chunks \<noteq> [] \<Longrightarrow>
     drop_leading_space lines chunks = chunks
     \<or> chunks_weight (drop_leading_space lines chunks) < chunks_weight chunks"
  by (cases chunks) (auto simp: drop_leading_space_def chunks_weight_def)

lemma fill_line_weight:
  assumes "chunks \<noteq> []" and "fill_line width lines chunks = (cur_line, cur_len, chunks')"
  shows "chunks_weight chunks' < chunks_weight chunks"
proof -
  let ?chunks0 = "drop_leading_space lines chunks"
  obtain cl1 len1 ch1 where tf: "take_fitting width [] 0 ?chunks0 = (cl1, len1, ch1)"
    by (cases "take_fitting width [] 0 ?chunks0") auto
  obtain cl2 len2 ch2 where bl: "break_long_word width (cl1, len1, ch1) = (cl2, len2, ch2)"
    by (cases "break_long_word width (cl1, len1, ch1)") auto
  from assms(2) tf bl have "drop_trailing_space (cl2, len2, ch2) = (cur_line, cur_len, chunks')"
    by (simp add: fill_line_def)
  then have ch: "chunks' = ch2"
    by (auto simp: drop_trailing_space_def split: if_splits)
  note w12 = break_long_word_weight [OF bl]
  from drop_leading_space_weight [OF assms(1), of lines]
  have w0: "chunks_weight ?chunks0 \<le> chunks_weight chunks" by auto
  from take_fitting_weight [OF tf] show ?thesis
  proof
    assume "chunks_weight ch1 < chunks_weight ?chunks0"
    with w0 w12(1) ch show ?thesis by simp
  next
    assume same: "ch1 = ?chunks0 \<and> cl1 = [] \<and> len1 = 0
        \<and> (?chunks0 \<noteq> [] \<longrightarrow> width < 0 + length (hd ?chunks0))"
    from drop_leading_space_weight [OF assms(1), of lines] show ?thesis
    proof
      assume "chunks_weight ?chunks0 < chunks_weight chunks"
      with same w12(1) ch show ?thesis by simp
    next
      assume eq: "?chunks0 = chunks"
      with same assms(1) have "ch1 \<noteq> []" "width < length (hd ch1)" "len1 = 0" by auto
      from w12(2) [OF this] same eq ch show ?thesis by simp
    qed
  qed
qed

lemma wrap_pass_weight:
  assumes "chunks \<noteq> []" and "wrap_pass width placeholder lines chunks = Again lines' chunks'"
  shows "chunks_weight chunks' < chunks_weight chunks"
proof -
  obtain cur_line cur_len ch where fl: "fill_line width lines chunks = (cur_line, cur_len, ch)"
    by (cases "fill_line width lines chunks") auto
  from assms(2) fl have "chunks' = ch"
    by (simp add: wrap_pass_def split: if_splits option.splits)
  with fill_line_weight [OF assms(1) fl] show ?thesis by simp
qed

function wrap_chunks_loop :: "nat \<Rightarrow> string \<Rightarrow> string list \<Rightarrow> string list \<Rightarrow> string list" where
  "wrap_chunks_loop width placeholder lines chunks =
     (if chunks = [] then lines
      else (case wrap_pass width placeholder lines chunks of
              Break final \<Rightarrow> final
            | Again lines' chunks' \<Rightarrow> wrap_chunks_loop width placeholder lines' chunks'))"
  by pat_completeness auto
termination
  by (relation "measure (\<lambda>(width, placeholder, lines, chunks). chunks_weight chunks)")
     (auto intro: wrap_pass_weight)

text \<open>
  The checks at the head of \<^verbatim>\<open>_wrap_chunks\<close>, which raise \<^verbatim>\<open>ValueError\<close>; the indent is
  empty.
\<close>

datatype py_error = ValueError string

definition wrap_chunks :: "nat \<Rightarrow> string \<Rightarrow> string list \<Rightarrow> py_error + string list" where
  "wrap_chunks width placeholder chunks =
     (if width \<le> 0 then Inl (ValueError (''invalid width '' @ str_nat width @ '' (must be > 0)''))
      else if length (lstrip placeholder) > width
      then Inl (ValueError ''placeholder too large for max width'')
      else Inr (wrap_chunks_loop width placeholder [] chunks))"

text \<open>\<^verbatim>\<open>fill\<close> joins the lines of \<^verbatim>\<open>wrap\<close> with line feeds.\<close>

definition shorten :: "string \<Rightarrow> nat \<Rightarrow> string \<Rightarrow> py_error + string" where
  "shorten text width placeholder =
     (case wrap_chunks width placeholder
             (split_chunks [] (munge_whitespace (collapse_whitespace text))) of
        Inl e \<Rightarrow> Inl e
      | Inr lines \<Rightarrow> Inr (str_join [CHR 0x0A] lines))"

section \<open>Template inference: \<^verbatim>\<open>natural_to_template\<close>\<close>

subsection \<open>Strings and the two regular expressions\<close>

text \<open>
  \<^verbatim>\<open>str.lower()\<close> on the code points below 256: the ASCII capitals and the Latin-1
  capitals \<^verbatim>\<open>0xC0..0xDE\<close> other than the multiplication sign \<^verbatim>\<open>0xD7\<close> move up by 32.
\<close>

definition lower_char :: "char \<Rightarrow> char" where
  "lower_char c =
     (let n = of_char c :: nat in
        if (65 \<le> n \<and> n \<le> 90) \<or> (192 \<le> n \<and> n \<le> 222 \<and> n \<noteq> 215) then char_of (n + 32) else c)"

definition str_lower :: "string \<Rightarrow> string" where
  "str_lower s = map lower_char s"

text \<open>
  \<^verbatim>\<open>int(s)\<close> on a string of decimal digits. The value is the unbounded integer the digits
  denote. CPython refuses to convert a string of more than
  \<^verbatim>\<open>sys.int_info.default_max_str_digits\<close>, 4300, digits, leading zeros counted, and raises
  \<^verbatim>\<open>ValueError\<close>; the program does not change that limit.
\<close>

definition int_of_digits :: "string \<Rightarrow> int" where
  "int_of_digits ds = foldl (\<lambda>n c. 10 * n + (int (of_char c) - 48)) 0 ds"

definition int_max_str_digits :: nat where
  "int_max_str_digits = 4300"

definition int_str :: "string \<Rightarrow> py_error + int" where
  "int_str ds =
     (if int_max_str_digits < length ds
      then Inl (ValueError (''Exceeds the limit ('' @ str_nat int_max_str_digits
                  @ '' digits) for integer string conversion: value has '' @ str_nat (length ds)
                  @ '' digits; use sys.set_int_max_str_digits() to increase the limit''))
      else Inr (int_of_digits ds))"

text \<open>
  \<^verbatim>\<open>re.search\<close>: the match at the leftmost position that has one, the end of the text
  included. The first argument is the matcher of the pattern at the head of a text.
\<close>

fun re_search :: "(string \<Rightarrow> 'm option) \<Rightarrow> string \<Rightarrow> 'm option" where
  "re_search match_at [] = match_at []"
| "re_search match_at (c # s) =
     (case match_at (c # s) of
        Some m \<Rightarrow> Some m
      | None \<Rightarrow> re_search match_at s)"

text \<open>
  \<^verbatim>\<open>re.search(r"(\d+)\s*(s|sec|secs|seconds|second|m|min|minutes)", lower)\<close>.
  At a position the greedy \<^verbatim>\<open>\d+\<close> takes the whole run of digits and \<^verbatim>\<open>\s*\<close> the whole run of
  whitespace; giving characters back cannot help, because the next item would then
  have to match a digit or a whitespace character. The alternatives of the second group
  are tried in the order written, and nothing follows the group, so the group is the
  first alternative that is a prefix of the rest. The result is the pair of the two
  groups.
\<close>

definition duration_units :: "string list" where
  "duration_units = [''s'', ''sec'', ''secs'', ''seconds'', ''second'', ''m'', ''min'', ''minutes'']"

definition match_duration_at :: "string \<Rightarrow> (string \<times> string) option" where
  "match_duration_at s =
     (let digits = takeWhile re_digit s in
        if digits = [] then None
        else (case find (\<lambda>u. prefix u (dropWhile isspace (dropWhile re_digit s))) duration_units of
                Some u \<Rightarrow> Some (digits, u)
              | None \<Rightarrow> None))"

definition search_duration :: "string \<Rightarrow> (string \<times> string) option" where
  "search_duration s = re_search match_duration_at s"

text \<open>
  \<^verbatim>\<open>re.search(r"(\d{3,4})\s*[x\<times>]\s*(\d{3,4})", text)\<close>, where the second character of the
  class is the multiplication sign \<^verbatim>\<open>0xD7\<close>. The greedy \<^verbatim>\<open>\d{3,4}\<close> takes four digits when
  there are four; taking three instead leaves a digit where whitespace or the separator
  must follow, so it cannot help.
\<close>

definition match_size_at :: "string \<Rightarrow> (string \<times> string) option" where
  "match_size_at s =
     (let g1 = take 4 (takeWhile re_digit s) in
        if length g1 < 3 then None
        else (case dropWhile isspace (drop (length g1) s) of
                [] \<Rightarrow> None
              | c # r \<Rightarrow>
                  if c = CHR ''x'' \<or> c = CHR 0xD7 then
                    (let g2 = take 4 (takeWhile re_digit (dropWhile isspace r)) in
                       if length g2 < 3 then None else Some (g1, g2))
                  else None))"

definition search_size :: "string \<Rightarrow> (string \<times> string) option" where
  "search_size s = re_search match_size_at s"

subsection \<open>The function\<close>

text \<open>\<^verbatim>\<open>template.update({...})\<close>: the entries are stored in the order written.\<close>

definition dict_update :: "pydict \<Rightarrow> pydict \<Rightarrow> pydict" where
  "dict_update d items = foldl (\<lambda>d kv. dict_set d (fst kv) (snd kv)) d items"

text \<open>
  The branch for \<^verbatim>\<open>tool == "veo3_video"\<close> (lines 127 to 153 of \<^verbatim>\<open>app.py\<close>):
  \<^verbatim>\<open>
  template.update({
      "scene_description": textwrap.shorten(t, width=600, placeholder="..."),
      "camera_movement": "static", "lighting": "natural", "style": "cinematic",
      "duration": 8, "aspect_ratio": "16:9",
      "audio": {"music": False, "narration": False}})
  m = re.search(r"(\d+)\s*(s|sec|secs|seconds|second|m|min|minutes)", lower)
  if m:
      val = int(m.group(1))
      if m.group(2).startswith("m"):
          template["duration"] = val * 60
      else:
          template["duration"] = val
  if "vertical" in lower or "tiktok" in lower or "9:16" in lower:
      template["aspect_ratio"] = "9:16"
  if any(w in lower for w in ["pan", "tilt", "dolly", "zoom", "tracking", "follow"]):
      template["camera_movement"] = "cinematic_tracking"
  if any(w in lower for w in ["golden hour", "sunset", "soft light", "studio light", "dramatic"]):
      template["lighting"] = "dramatic"
  if any(w in lower for w in ["cinematic", "film", "8k", "ultra realistic", "photorealistic"]):
      template["style"] = "cinematic_photorealistic"
  if any(w in lower for w in ["cartoon", "2d", "anime", "cel-shaded"]):
      template["style"] = "cartoon"
  \<close>
\<close>

definition photorealistic_words :: "string list" where
  "photorealistic_words = [''cinematic'', ''film'', ''8k'', ''ultra realistic'', ''photorealistic'']"

definition cartoon_words :: "string list" where
  "cartoon_words = [''cartoon'', ''2d'', ''anime'', ''cel-shaded'']"

text \<open>
  \<^verbatim>\<open>int(m.group(1))\<close> is the one statement of the branch that can raise after the
  \<^verbatim>\<open>update\<close>; when it does, the rules below it do not run and no template is returned.
\<close>

definition template_veo3_video :: "pydict \<Rightarrow> string \<Rightarrow> string \<Rightarrow> py_error + pydict" where
  "template_veo3_video template0 t lower =
     (case shorten t 600 ''...'' of
        Inl e \<Rightarrow> Inl e
      | Inr scene \<Rightarrow>
         (let template = dict_update template0
                [(''scene_description'', PStr scene),
                 (''camera_movement'', PStr ''static''),
                 (''lighting'', PStr ''natural''),
                 (''style'', PStr ''cinematic''),
                 (''duration'', PInt 8),
                 (''aspect_ratio'', PStr ''16:9''),
                 (''audio'', PDict [(''music'', PBool False), (''narration'', PBool False)])]
          in case (case search_duration lower of
                     Some (g1, g2) \<Rightarrow>
                       (case int_str g1 of
                          Inl e \<Rightarrow> Inl e
                        | Inr val \<Rightarrow>
                            if prefix ''m'' g2
                            then Inr (dict_set template ''duration'' (PInt (val * 60)))
                            else Inr (dict_set template ''duration'' (PInt val)))
                   | None \<Rightarrow> Inr template) of
               Inl e \<Rightarrow> Inl e
             | Inr template \<Rightarrow>
                (let template =
                       (if str_contains lower ''vertical'' \<or> str_contains lower ''tiktok''
                           \<or> str_contains lower ''9:16''
                        then dict_set template ''aspect_ratio'' (PStr ''9:16'') else template);
                     template =
                       (if list_ex (str_contains lower)
                             [''pan'', ''tilt'', ''dolly'', ''zoom'', ''tracking'', ''follow'']
                        then dict_set template ''camera_movement'' (PStr ''cinematic_tracking'')
                        else template);
                     template =
                       (if list_ex (str_contains lower)
                             [''golden hour'', ''sunset'', ''soft light'', ''studio light'',
                              ''dramatic'']
                        then dict_set template ''lighting'' (PStr ''dramatic'') else template);
                     template =
                       (if list_ex (str_contains lower) photorealistic_words
                        then dict_set template ''style'' (PStr ''cinematic_photorealistic'')
                        else template);
                     template =
                       (if list_ex (str_contains lower) cartoon_words
                        then dict_set template ''style'' (PStr ''cartoon'') else template)
                 in Inr template)))"

text \<open>
  The branch for \<^verbatim>\<open>tool == "image"\<close> (lines 155 to 171):
  \<^verbatim>\<open>
  template.update({
      "prompt": textwrap.shorten(t, width=1000, placeholder="..."),
      "style": "photorealistic", "quality": "high", "size": "1024x1024",
      "negative_prompt": "low-quality, blurry, deformed, text, watermark",
      "composition": "centered_subject"})
  m = re.search(r"(\d{3,4})\s*[x\<times>]\s*(\d{3,4})", text)
  if m:
      template["size"] = f"{m.group(1)}x{m.group(2)}"
  if "cinematic" in lower:
      template["style"] = "cinematic"
      template["composition"] = "wide"
  if "illustration" in lower or "vector" in lower:
      template["style"] = "illustration"
  \<close>
\<close>

definition template_image :: "pydict \<Rightarrow> string \<Rightarrow> string \<Rightarrow> string \<Rightarrow> py_error + pydict" where
  "template_image template0 text t lower =
     (case shorten t 1000 ''...'' of
        Inl e \<Rightarrow> Inl e
      | Inr prompt \<Rightarrow>
         (let template = dict_update template0
                [(''prompt'', PStr prompt),
                 (''style'', PStr ''photorealistic''),
                 (''quality'', PStr ''high''),
                 (''size'', PStr ''1024x1024''),
                 (''negative_prompt'', PStr ''low-quality, blurry, deformed, text, watermark''),
                 (''composition'', PStr ''centered_subject'')];
              template =
                (case search_size text of
                   Some (g1, g2) \<Rightarrow> dict_set template ''size'' (PStr (g1 @ ''x'' @ g2))
                 | None \<Rightarrow> template);
              template =
                (if str_contains lower ''cinematic''
                 then dict_set (dict_set template ''style'' (PStr ''cinematic''))
                        ''composition'' (PStr ''wide'')
                 else template);
              template =
                (if str_contains lower ''illustration'' \<or> str_contains lower ''vector''
                 then dict_set template ''style'' (PStr ''illustration'') else template)
          in Inr template))"

text \<open>
  The branch for \<^verbatim>\<open>tool == "code"\<close> (lines 173 to 193):
  \<^verbatim>\<open>
  lang = None
  if "python" in lower or "py " in lower: lang = "python"
  elif "javascript" in lower or "js " in lower: lang = "javascript"
  elif "r " in lower or "rstudio" in lower: lang = "r"
  template.update({
      "task": textwrap.shorten(t, width=1000, placeholder="..."),
      "language": lang or "python",
      "requirements": [],
      "constraints": {"no_external_network": False,
                      "security": "avoid-shell-execution", "time_complexity": None},
      "output_format": "file"})
  if "scrape" in lower or "scraping" in lower:
      template["requirements"].extend(["requests", "beautifulsoup4"])
  if "pandas" in lower or "dataframe" in lower:
      template["requirements"].append("pandas")
  if "notebook" in lower or "jupyter" in lower:
      template["output_format"] = "notebook"
  \<close>
  The list under \<^verbatim>\<open>requirements\<close> is the only object the branch mutates in place; the
  model stores the list again after each change.
\<close>

definition template_code :: "pydict \<Rightarrow> string \<Rightarrow> string \<Rightarrow> py_error + pydict" where
  "template_code template0 t lower =
     (let lang =
            (if str_contains lower ''python'' \<or> str_contains lower ''py '' then Some ''python''
             else if str_contains lower ''javascript'' \<or> str_contains lower ''js ''
             then Some ''javascript''
             else if str_contains lower ''r '' \<or> str_contains lower ''rstudio'' then Some ''r''
             else None)
      in case shorten t 1000 ''...'' of
           Inl e \<Rightarrow> Inl e
         | Inr task \<Rightarrow>
            (let template = dict_update template0
                   [(''task'', PStr task),
                    (''language'', PStr (case lang of Some l \<Rightarrow> l | None \<Rightarrow> ''python'')),
                    (''requirements'', PList []),
                    (''constraints'', PDict [(''no_external_network'', PBool False),
                                             (''security'', PStr ''avoid-shell-execution''),
                                             (''time_complexity'', PNone)]),
                    (''output_format'', PStr ''file'')];
                 requirements = [];
                 requirements =
                   (if str_contains lower ''scrape'' \<or> str_contains lower ''scraping''
                    then requirements @ [PStr ''requests'', PStr ''beautifulsoup4'']
                    else requirements);
                 requirements =
                   (if str_contains lower ''pandas'' \<or> str_contains lower ''dataframe''
                    then requirements @ [PStr ''pandas''] else requirements);
                 template = dict_set template ''requirements'' (PList requirements);
                 template =
                   (if str_contains lower ''notebook'' \<or> str_contains lower ''jupyter''
                    then dict_set template ''output_format'' (PStr ''notebook'') else template)
             in Inr template))"

text \<open>
  \<^verbatim>\<open>
  def natural_to_template(tool, text):
      t = text.strip()
      lower = t.lower()
      now = datetime.utcnow().isoformat() + "Z"
      template = {"meta": {"created_at": now, "source_text": text}}
      if tool == "veo3_video": ...
      elif tool == "image": ...
      elif tool == "code": ...
      else:
          template.update({"prompt": t, "style": "neutral", "quality": "standard",
                           "constraints": []})
      return template
  \<close>
  The clock is an input: \<open>utcnow\<close> is the text of \<^verbatim>\<open>datetime.utcnow().isoformat()\<close>. The
  result is \<open>Inl\<close> where the function raises.
\<close>

definition natural_to_template :: "string \<Rightarrow> string \<Rightarrow> string \<Rightarrow> py_error + pydict" where
  "natural_to_template utcnow tool text =
     (let t = strip text;
          lower = str_lower t;
          now = utcnow @ ''Z'';
          template = [(''meta'', PDict [(''created_at'', PStr now), (''source_text'', PStr text)])]
      in if tool = ''veo3_video'' then template_veo3_video template t lower
         else if tool = ''image'' then template_image template text t lower
         else if tool = ''code'' then template_code template t lower
         else Inr (dict_update template
                     [(''prompt'', PStr t), (''style'', PStr ''neutral''),
                      (''quality'', PStr ''standard''), (''constraints'', PList [])]))"

subsection \<open>The two patterns, declaratively\<close>


definition size_pattern_at :: "string \<Rightarrow> bool" where
  "size_pattern_at s \<longleftrightarrow>
     (\<exists>g1 w1 sep w2 g2 post. s = g1 @ w1 @ sep # w2 @ g2 @ post
        \<and> list_all re_digit g1 \<and> (length g1 = 3 \<or> length g1 = 4)
        \<and> list_all isspace w1 \<and> (sep = CHR ''x'' \<or> sep = CHR 0xD7) \<and> list_all isspace w2
        \<and> list_all re_digit g2 \<and> (length g2 = 3 \<or> length g2 = 4))"

subsection \<open>Texts that whitespace collapsing leaves alone, and leading chunks\<close>




section \<open>The merge on a heap of mutable objects\<close>

text \<open>
  Whether \<^verbatim>\<open>merge_manual_fields\<close> mutates its argument is a question about objects and
  references, which the value model above cannot ask. Here a dict or a list is an
  object on a heap, held by reference; \<^verbatim>\<open>None\<close>, booleans, numbers and strings are
  immutable and held by value. The heap is the list of the objects allocated so far, an
  address is an index into it, and a new object goes to the end.
\<close>

datatype hval = HNone | HBool bool | HInt int | HFloat real | HStr string | HRef nat

datatype hobj = HDict "(string \<times> hval) list" | HList "hval list"

type_synonym heap = "hobj list"

definition heap_get :: "heap \<Rightarrow> nat \<Rightarrow> hobj option" where
  "heap_get h a = (if a < length h then Some (h ! a) else None)"

text \<open>\<^verbatim>\<open>isinstance(v, dict)\<close>: the address of the dict when \<open>v\<close> refers to one.\<close>

definition dict_address :: "heap \<Rightarrow> hval \<Rightarrow> nat option" where
  "dict_address h v =
     (case v of
        HRef a \<Rightarrow> (case heap_get h a of Some (HDict _) \<Rightarrow> Some a | _ \<Rightarrow> None)
      | _ \<Rightarrow> None)"

text \<open>The items of the dict at an address; \<open>None\<close> when there is no dict there.\<close>

definition dict_items :: "heap \<Rightarrow> nat \<Rightarrow> (string \<times> hval) list option" where
  "dict_items h a = (case heap_get h a of Some (HDict items) \<Rightarrow> Some items | _ \<Rightarrow> None)"

text \<open>\<^verbatim>\<open>v is None or (isinstance(v, str) and v.strip() == "")\<close>.\<close>

fun is_empty_hval :: "hval \<Rightarrow> bool" where
  "is_empty_hval HNone = True"
| "is_empty_hval (HStr s) = (strip s = [])"
| "is_empty_hval _ = False"

text \<open>\<^verbatim>\<open>merged[k] = v\<close>: the dict at the address is updated in place.\<close>

definition heap_setitem :: "heap \<Rightarrow> nat \<Rightarrow> string \<Rightarrow> hval \<Rightarrow> heap" where
  "heap_setitem h a k v =
     (case heap_get h a of
        Some (HDict items) \<Rightarrow> h[a := HDict (dict_set items k v)]
      | _ \<Rightarrow> h)"

text \<open>\<^verbatim>\<open>merged.get(k)\<close>.\<close>

definition heap_getitem :: "heap \<Rightarrow> nat \<Rightarrow> string \<Rightarrow> hval option" where
  "heap_getitem h a k =
     (case heap_get h a of
        Some (HDict items) \<Rightarrow> dict_get items k
      | _ \<Rightarrow> None)"

text \<open>
  The loop over \<^verbatim>\<open>manual.items()\<close>, with \<open>merged\<close> the address of the new dict. The
  recursive call is the parameter \<open>recurse\<close>; it returns the new heap and the address of
  its result, or \<open>None\<close> when it does not return. The items of \<^verbatim>\<open>manual\<close> are read when
  the loop starts: no step of the loop writes to an object that existed before the call
  (lemma \<open>merge_items_frame\<close> below), so reading them from the heap one by one gives
  the same items.
\<close>

fun merge_items ::
  "(heap \<Rightarrow> nat \<Rightarrow> nat \<Rightarrow> (heap \<times> nat) option) \<Rightarrow> heap \<Rightarrow> nat \<Rightarrow> (string \<times> hval) list
     \<Rightarrow> (heap \<times> nat) option" where
  "merge_items recurse h merged [] = Some (h, merged)"
| "merge_items recurse h merged ((k, v) # items) =
     (if is_empty_hval v then merge_items recurse h merged items
      else (case (dict_address h v, Option.bind (heap_getitem h merged k) (dict_address h)) of
              (Some a, Some c) \<Rightarrow>
                 (case recurse h c a of
                    None \<Rightarrow> None
                  | Some (h', r) \<Rightarrow>
                      merge_items recurse (heap_setitem h' merged k (HRef r)) merged items)
            | _ \<Rightarrow> merge_items recurse (heap_setitem h merged k v) merged items))"

text \<open>
  \<^verbatim>\<open>merge_manual_fields(base, manual)\<close> on the heap. \<^verbatim>\<open>dict(base)\<close> allocates the new dict
  with the items of \<^verbatim>\<open>base\<close>, a shallow copy. The first argument bounds the depth of the
  recursion, as the interpreter's recursion limit does: at depth zero the call does not
  return. A call whose arguments are not dicts raises, which is \<open>None\<close> as well.
\<close>

primrec merge_heap :: "nat \<Rightarrow> heap \<Rightarrow> nat \<Rightarrow> nat \<Rightarrow> (heap \<times> nat) option" where
  "merge_heap 0 h base manual = None"
| "merge_heap (Suc depth) h base manual =
     (case (dict_items h base, dict_items h manual) of
        (Some base_items, Some manual_items) \<Rightarrow>
           merge_items (merge_heap depth) (h @ [HDict base_items]) (length h) manual_items
      | _ \<Rightarrow> None)"

text \<open>
  A dict whose nesting of dicts is at most \<open>depth\<close> deep and holds no dangling reference:
  the inputs on which a recursion limit of \<open>depth\<close> is enough.
\<close>

fun item_ok :: "(nat \<Rightarrow> bool) \<Rightarrow> heap \<Rightarrow> hval \<Rightarrow> bool" where
  "item_ok nested h (HRef c) =
     (case heap_get h c of
        Some (HDict _) \<Rightarrow> nested c
      | Some (HList _) \<Rightarrow> True
      | None \<Rightarrow> False)"
| "item_ok nested h _ = True"

primrec depth_ok :: "nat \<Rightarrow> heap \<Rightarrow> nat \<Rightarrow> bool" where
  "depth_ok 0 h a = False"
| "depth_ok (Suc depth) h a =
     (case heap_get h a of
        Some (HDict items) \<Rightarrow> list_all (\<lambda>kv. item_ok (depth_ok depth h) h (snd kv)) items
      | _ \<Rightarrow> False)"

text \<open>The heap of the recursive-merge example: base and override with their nested dicts.\<close>

definition audio_heap :: heap where
  "audio_heap =
     [HDict [(''music'', HBool False), (''narration'', HBool False)],
      HDict [(''audio'', HRef 0)],
      HDict [(''music'', HBool True)],
      HDict [(''audio'', HRef 2)]]"
section \<open>Sample inputs\<close>

text \<open>Sample templates used to exercise the theorems below on concrete inputs.\<close>

definition style_base :: pydict where
  "style_base = [(''style'', PStr ''cinematic''), (''duration'', PInt 8)]"
definition style_overrides :: pydict where
  "style_overrides = [(''style'', PStr '' ''), (''duration'', PInt 0)]"

definition audio_current :: pydict where
  "audio_current = [(''audio'', PDict [(''music'', PBool False), (''narration'', PBool False)])]"

definition audio_overrides :: pydict where
  "audio_overrides = [(''audio'', PDict [(''music'', PBool True)])]"

definition code_base :: pydict where
  "code_base =
     [(''constraints'', PDict [(''no_external_network'', PBool False),
                               (''security'', PStr ''avoid-shell-execution''),
                               (''time_complexity'', PNone)])]"

definition code_manual :: pydict where
  "code_manual =
     [(''constraints'', PDict [(''no_external_network'', PBool True),
                               (''stdlib_only'', PBool False)])]"

definition no_jsonschema :: jsonschema_runtime where
  "no_jsonschema = \<lparr>validate_name = None, Draft7Validator = None\<rparr>"

section \<open>Facts about dicts and the merge loop\<close>

lemma dict_get_dict_set:
  "dict_get (dict_set d k v) k' = (if k = k' then Some v else dict_get d k')"
  by (induction d) auto

lemma dict_keys_Nil: "dict_keys [] = {}"
  by (simp add: dict_keys_def)

lemma dict_keys_Cons: "dict_keys ((k, v) # d) = insert k (dict_keys d)"
  by (simp add: dict_keys_def)

lemma dict_keys_dict_set: "dict_keys (dict_set d k v) = insert k (dict_keys d)"
proof (induction d)
  case Nil
  then show ?case by (simp add: dict_keys_Nil dict_keys_Cons)
next
  case (Cons kv d)
  obtain k' v' where kv: "kv = (k', v')" by (cases kv)
  show ?case unfolding kv using Cons.IH by (auto simp: dict_keys_Cons)
qed

lemma dict_get_None_iff: "dict_get d k = None \<longleftrightarrow> k \<notin> dict_keys d"
proof (induction d)
  case Nil
  then show ?case by (simp add: dict_keys_Nil)
next
  case (Cons kv d)
  obtain k' v' where kv: "kv = (k', v')" by (cases kv)
  show ?case unfolding kv using Cons.IH by (auto simp: dict_keys_Cons)
qed

lemma dict_get_Some_mem: "dict_get d k = Some v \<Longrightarrow> (k, v) \<in> set d"
  by (induction d) (auto split: if_splits)

lemma dict_get_distinct:
  "distinct (map fst d) \<Longrightarrow> (k, v) \<in> set d \<Longrightarrow> dict_get d k = Some v"
  by (induction d) (auto simp: rev_image_eqI)

lemma merge_step:
  "merge_manual_fields merged ((k, v) # manual) =
     (if is_empty_value v then merge_manual_fields merged manual
      else merge_manual_fields (dict_set merged k (stored_value v (dict_get merged k))) manual)"
  by (simp add: stored_value_def split: pyval.split option.split)

lemma merge_lookup_absent:
  "k \<notin> dict_keys manual \<Longrightarrow>
     dict_get (merge_manual_fields merged manual) k = dict_get merged k"
proof (induction manual arbitrary: merged)
  case Nil
  then show ?case by simp
next
  case (Cons kv manual)
  obtain k' v where kv: "kv = (k', v)" by (cases kv)
  from Cons.prems kv have ne: "k' \<noteq> k" and rest: "k \<notin> dict_keys manual"
    by (auto simp: dict_keys_def)
  show ?case
    unfolding kv merge_step using Cons.IH [OF rest] ne
    by (simp add: dict_get_dict_set)
qed

lemma merge_lookup_present:
  "distinct (map fst manual) \<Longrightarrow> dict_get manual k = Some v \<Longrightarrow>
     dict_get (merge_manual_fields merged manual) k =
       (if is_empty_value v then dict_get merged k
        else Some (stored_value v (dict_get merged k)))"
proof (induction manual arbitrary: merged)
  case Nil
  then show ?case by simp
next
  case (Cons kv manual)
  obtain k' v' where kv: "kv = (k', v')" by (cases kv)
  show ?case
  proof (cases "k' = k")
    case True
    with Cons.prems kv have v': "v' = v" and absent: "k \<notin> dict_keys manual"
      by (auto simp: dict_keys_def)
    show ?thesis
      unfolding kv merge_step using True v' merge_lookup_absent [OF absent]
      by (simp add: dict_get_dict_set)
  next
    case False
    with Cons.prems kv have d: "distinct (map fst manual)" and g: "dict_get manual k = Some v"
      by auto
    show ?thesis
      unfolding kv merge_step using False Cons.IH [OF d g]
      by (simp add: dict_get_dict_set)
  qed
qed

lemma merge_keys: "dict_keys merged \<subseteq> dict_keys (merge_manual_fields merged manual)"
proof (induction manual arbitrary: merged)
  case Nil
  then show ?case by simp
next
  case (Cons kv manual)
  obtain k v where kv: "kv = (k, v)" by (cases kv)
  have "dict_keys merged \<subseteq> dict_keys (dict_set merged k (stored_value v (dict_get merged k)))"
    by (auto simp: dict_keys_dict_set)
  with Cons.IH show ?case
    unfolding kv merge_step by (metis (full_types) order_trans)
qed

lemma dropWhile_all_iff: "(\<forall>x\<in>set (dropWhile P s). P x) \<longleftrightarrow> (\<forall>x\<in>set s. P x)"
  by (induction s) auto

lemma strip_empty_iff: "strip s = [] \<longleftrightarrow> list_all isspace s"
  by (simp add: strip_def dropWhile_eq_Nil_conv dropWhile_all_iff list_all_iff)

lemma strip_Nil: "strip [] = []"
  by (simp add: strip_def)

lemma keys_kept_refl: "wf_value v \<Longrightarrow> keys_kept v v"
proof (induction v)
  case (PDict d)
  have "\<And>kv. kv \<in> set d \<Longrightarrow>
          (case dict_get d (fst kv) of None \<Rightarrow> False | Some w \<Rightarrow> keys_kept (snd kv) w)"
  proof -
    fix kv assume m: "kv \<in> set d"
    obtain k v where kv: "kv = (k, v)" by (cases kv)
    from PDict.prems m kv have g: "dict_get d k = Some v" and w: "wf_value v"
      by (auto simp: dict_get_distinct list_all_iff)
    from m kv have "keys_kept v v"
      using PDict.IH [of kv v] w by simp
    with g kv show "case dict_get d (fst kv) of None \<Rightarrow> False | Some w \<Rightarrow> keys_kept (snd kv) w"
      by simp
  qed
  then show ?case by (simp add: list_all_iff)
qed simp_all

lemma keys_kept_not_both:
  "(\<forall>a. v \<noteq> PDict a) \<or> (\<forall>r. w \<noteq> PDict r) \<Longrightarrow> keys_kept v w"
  by (cases v; cases w) auto

lemma merge_keys_kept_aux:
  "\<forall>d. v = PDict d \<longrightarrow>
     (\<forall>cur. wf_value (PDict cur) \<longrightarrow> wf_value (PDict d) \<longrightarrow>
        keys_kept (PDict cur) (PDict (merge_manual_fields cur d)))"
proof (induction v)
  case (PDict ov)
  show ?case
  proof (intro allI impI)
    fix d cur
    assume eq: "PDict ov = PDict d"
      and wc: "wf_value (PDict cur)" and wd: "wf_value (PDict d)"
    from eq have d: "d = ov" by simp
    have "\<And>kv. kv \<in> set cur \<Longrightarrow>
       (case dict_get (merge_manual_fields cur ov) (fst kv) of None \<Rightarrow> False
        | Some w \<Rightarrow> keys_kept (snd kv) w)"
    proof -
      fix kv assume m: "kv \<in> set cur"
      obtain k v where kv: "kv = (k, v)" by (cases kv)
      from wc m kv have g: "dict_get cur k = Some v" and wv: "wf_value v"
        by (auto simp: dict_get_distinct list_all_iff)
      have "\<exists>w. dict_get (merge_manual_fields cur ov) k = Some w \<and> keys_kept v w"
      proof (cases "dict_get ov k")
        case None
        then have "k \<notin> dict_keys ov" by (simp add: dict_get_None_iff)
        then show ?thesis
          using g wv by (simp add: merge_lookup_absent keys_kept_refl)
      next
        case (Some mv)
        from wd d have dist: "distinct (map fst ov)" by simp
        note look = merge_lookup_present [OF dist Some, of cur]
        show ?thesis
        proof (cases "is_empty_value mv")
          case True
          with look g wv show ?thesis by (simp add: keys_kept_refl)
        next
          case False
          show ?thesis
          proof (cases "(\<exists>a. v = PDict a) \<and> (\<exists>r. mv = PDict r)")
            case True
            then obtain a r where v: "v = PDict a" and mv: "mv = PDict r" by blast
            from Some have mem: "(k, mv) \<in> set ov" by (rule dict_get_Some_mem)
            from wd d have "\<forall>kv\<in>set ov. wf_value (snd kv)"
              by (simp add: list_all_iff)
            with mem have "wf_value (snd (k, mv))" by blast
            with mv have wr: "wf_value (PDict r)" by simp
            from PDict.IH [of "(k, mv)" mv] mem mv v wv wr
            have "keys_kept (PDict a) (PDict (merge_manual_fields a r))" by simp
            with look False g v mv show ?thesis
              by (simp add: stored_value_def)
          next
            case nb: False
            then have st: "stored_value mv (dict_get cur k) = mv"
              using g by (auto simp: stored_value_def split: pyval.split)
            from nb have "keys_kept v mv" by (intro keys_kept_not_both) blast
            with look False st show ?thesis by simp
          qed
        qed
      qed
      then show "case dict_get (merge_manual_fields cur ov) (fst kv) of None \<Rightarrow> False
        | Some w \<Rightarrow> keys_kept (snd kv) w"
        using kv by auto
    qed
    then show "keys_kept (PDict cur) (PDict (merge_manual_fields cur d))"
      by (simp add: list_all_iff d)
  qed
qed simp_all

section \<open>Claims about the field merge\<close>

text \<open>
  C1 (merge precedence), as the code has it. The key \<open>k\<close> is present in \<open>manual\<close> with
  a non-empty value \<open>v\<close>. After \<open>merge(merge(base, enrichment), manual)\<close> the value at
  \<open>k\<close> is \<open>v\<close> itself whenever \<open>v\<close> is not a mapping, or the value that base and
  enrichment left at \<open>k\<close> is not a mapping. When both are mappings the value at \<open>k\<close> is
  the recursive merge of the two, which keeps the nested entries of base and enrichment
  that \<open>manual\<close> does not mention.
\<close>

theorem merge_precedence:
  "distinct (map fst manual) \<Longrightarrow> dict_get manual k = Some v \<Longrightarrow> \<not> is_empty_value v \<Longrightarrow>
     ((\<forall>d. v \<noteq> PDict d) \<or> (\<forall>b. dict_get (merge_manual_fields base enrichment) k \<noteq> Some (PDict b))
        \<longrightarrow> dict_get (merge_manual_fields (merge_manual_fields base enrichment) manual) k = Some v)
     \<and> (\<forall>d b. v = PDict d \<and> dict_get (merge_manual_fields base enrichment) k = Some (PDict b)
        \<longrightarrow> dict_get (merge_manual_fields (merge_manual_fields base enrichment) manual) k
              = Some (PDict (merge_manual_fields b d)))"
proof -
  assume a: "distinct (map fst manual)" "dict_get manual k = Some v" "\<not> is_empty_value v"
  let ?cur = "merge_manual_fields base enrichment"
  have look: "dict_get (merge_manual_fields ?cur manual) k = Some (stored_value v (dict_get ?cur k))"
    using a by (simp add: merge_lookup_present)
  have 1: "(\<forall>d. v \<noteq> PDict d) \<or> (\<forall>b. dict_get ?cur k \<noteq> Some (PDict b))
             \<Longrightarrow> stored_value v (dict_get ?cur k) = v"
    by (auto simp: stored_value_def split: pyval.split option.split)
  have 2: "\<And>d b. v = PDict d \<and> dict_get ?cur k = Some (PDict b)
             \<Longrightarrow> stored_value v (dict_get ?cur k) = PDict (merge_manual_fields b d)"
    by (auto simp: stored_value_def)
  from look 1 2 show ?thesis by auto
qed

theorem merge_precedence_witness:
  "distinct (map fst code_manual)
   \<and> dict_get code_manual ''constraints''
        = Some (PDict [(''no_external_network'', PBool True), (''stdlib_only'', PBool False)])
   \<and> dict_get (merge_manual_fields (merge_manual_fields code_base []) code_manual) ''constraints''
        = Some (PDict [(''no_external_network'', PBool True),
                       (''security'', PStr ''avoid-shell-execution''),
                       (''time_complexity'', PNone),
                       (''stdlib_only'', PBool False)])
   \<and> dict_get (merge_manual_fields (merge_manual_fields audio_current [(''audio'', PNone)])
                  [(''audio'', PInt 0)]) ''audio'' = Some (PInt 0)"
  using merge_precedence [of code_manual "''constraints''"
          "PDict [(''no_external_network'', PBool True), (''stdlib_only'', PBool False)]"
          code_base "[]"]
        merge_precedence [of "[(''audio'', PInt 0)]" "''audio''" "PInt 0"
          audio_current "[(''audio'', PNone)]"]
  by (simp add: code_base_def code_manual_def audio_current_def)

text \<open>
  C1 as the specification words it (the final value equals manual's value at every key
  where manual is non-empty) fails for the \<open>code\<close> tool on every request: the form always
  sends \<open>constraints\<close> as a mapping of two entries, the inferred template holds a mapping
  of three, and the result is the union of four entries, not manual's mapping.
\<close>

theorem merge_precedence_counterexample:
  "dict_get code_manual ''constraints''
        = Some (PDict [(''no_external_network'', PBool True), (''stdlib_only'', PBool False)])
   \<and> \<not> is_empty_value (PDict [(''no_external_network'', PBool True), (''stdlib_only'', PBool False)])
   \<and> dict_get (merge_manual_fields (merge_manual_fields code_base []) code_manual) ''constraints''
        \<noteq> dict_get code_manual ''constraints''"
  by (simp add: code_base_def code_manual_def)

text \<open>
  C4 (merge emptiness policy). An override that is \<open>None\<close> or a string of whitespace only
  leaves the current value at its key as it was; an override that is the number zero or
  the boolean false is stored. In particular \<open>merge(base, {"style": ""})\<close> is \<open>base\<close> and
  \<open>merge(base, {"duration": 0})\<close> has \<open>duration = 0\<close>.
\<close>

theorem merge_emptiness_policy:
  "(distinct (map fst overrides) \<and> dict_get overrides k = Some v \<longrightarrow>
      ((v = PNone \<or> (\<exists>s. v = PStr s \<and> list_all isspace s)) \<longrightarrow>
          dict_get (merge_manual_fields current overrides) k = dict_get current k) \<and>
      ((v = PInt 0 \<or> v = PFloat 0 \<or> v = PBool False) \<longrightarrow>
          dict_get (merge_manual_fields current overrides) k = Some v))
   \<and> merge_manual_fields current [(''style'', PStr '''')] = current
   \<and> dict_get (merge_manual_fields current [(''duration'', PInt 0)]) ''duration'' = Some (PInt 0)"
proof (intro conjI impI)
  show "merge_manual_fields current [(''style'', PStr '''')] = current"
    by (simp add: strip_Nil)
  show "dict_get (merge_manual_fields current [(''duration'', PInt 0)]) ''duration'' = Some (PInt 0)"
    by (simp add: dict_get_dict_set split: option.split pyval.split)
next
  assume h: "distinct (map fst overrides) \<and> dict_get overrides k = Some v"
    and e: "v = PNone \<or> (\<exists>s. v = PStr s \<and> list_all isspace s)"
  from e have "is_empty_value v" by (auto simp: strip_empty_iff)
  with h show "dict_get (merge_manual_fields current overrides) k = dict_get current k"
    by (simp add: merge_lookup_present)
next
  assume h: "distinct (map fst overrides) \<and> dict_get overrides k = Some v"
    and z: "v = PInt 0 \<or> v = PFloat 0 \<or> v = PBool False"
  from z have "\<not> is_empty_value v" and "stored_value v (dict_get current k) = v"
    by (auto simp: stored_value_def)
  with h show "dict_get (merge_manual_fields current overrides) k = Some v"
    by (simp add: merge_lookup_present)
qed

theorem merge_emptiness_policy_witness:
  "distinct (map fst style_overrides) \<and> dict_get style_overrides ''style'' = Some (PStr '' '')
   \<and> dict_get style_overrides ''duration'' = Some (PInt 0)
   \<and> dict_get (merge_manual_fields style_base style_overrides) ''style'' = Some (PStr ''cinematic'')
   \<and> dict_get (merge_manual_fields style_base style_overrides) ''duration'' = Some (PInt 0)"
  using merge_emptiness_policy [of style_overrides "''style''" "PStr '' ''" style_base]
        merge_emptiness_policy [of style_overrides "''duration''" "PInt 0" style_base]
  by (simp add: style_base_def style_overrides_def isspace_def)

text \<open>
  C7 (recursive merge). When the current value and the override at a key are both
  mappings, the result at that key is the merge of the two by the same function: nested
  keys the override does not mention keep the current value, and so do nested keys whose
  override is empty. The example of the specification evaluates as stated.
\<close>

theorem recursive_merge:
  "(distinct (map fst overrides) \<and> dict_get current k = Some (PDict b)
      \<and> dict_get overrides k = Some (PDict d) \<longrightarrow>
      dict_get (merge_manual_fields current overrides) k = Some (PDict (merge_manual_fields b d))
      \<and> (\<forall>j. j \<notin> dict_keys d \<longrightarrow> dict_get (merge_manual_fields b d) j = dict_get b j)
      \<and> (\<forall>j w. distinct (map fst d) \<and> dict_get d j = Some w \<and> is_empty_value w \<longrightarrow>
             dict_get (merge_manual_fields b d) j = dict_get b j))
   \<and> merge_manual_fields
        [(''audio'', PDict [(''music'', PBool False), (''narration'', PBool False)])]
        [(''audio'', PDict [(''music'', PBool True)])]
      = [(''audio'', PDict [(''music'', PBool True), (''narration'', PBool False)])]"
proof (intro conjI impI allI)
  assume h: "distinct (map fst overrides) \<and> dict_get current k = Some (PDict b)
      \<and> dict_get overrides k = Some (PDict d)"
  then show "dict_get (merge_manual_fields current overrides) k
               = Some (PDict (merge_manual_fields b d))"
    by (simp add: merge_lookup_present stored_value_def)
next
  fix j assume "j \<notin> dict_keys d"
  then show "dict_get (merge_manual_fields b d) j = dict_get b j"
    by (rule merge_lookup_absent)
next
  fix j w assume "distinct (map fst d) \<and> dict_get d j = Some w \<and> is_empty_value w"
  then show "dict_get (merge_manual_fields b d) j = dict_get b j"
    by (simp add: merge_lookup_present)
next
  show "merge_manual_fields
        [(''audio'', PDict [(''music'', PBool False), (''narration'', PBool False)])]
        [(''audio'', PDict [(''music'', PBool True)])]
      = [(''audio'', PDict [(''music'', PBool True), (''narration'', PBool False)])]"
    by simp
qed

theorem recursive_merge_witness:
  "distinct (map fst audio_overrides)
   \<and> dict_get audio_current ''audio'' = Some (PDict [(''music'', PBool False), (''narration'', PBool False)])
   \<and> dict_get audio_overrides ''audio'' = Some (PDict [(''music'', PBool True)])
   \<and> dict_get (merge_manual_fields audio_current audio_overrides) ''audio''
        = Some (PDict [(''music'', PBool True), (''narration'', PBool False)])
   \<and> ''narration'' \<notin> dict_keys [(''music'', PBool True)]
   \<and> dict_get (merge_manual_fields [(''music'', PBool False), (''narration'', PBool False)]
                  [(''music'', PBool True)]) ''narration'' = Some (PBool False)"
  using recursive_merge [of audio_overrides audio_current "''audio''"
          "[(''music'', PBool False), (''narration'', PBool False)]" "[(''music'', PBool True)]"]
  by (simp add: audio_current_def audio_overrides_def dict_keys_def)

text \<open>
  C10 (merge never removes fields). Every key of \<open>current\<close> is a key of the result, and
  for dicts with distinct keys the same holds at every depth where the result still
  nests a mapping under a mapping of \<open>current\<close>.
\<close>

theorem merge_never_removes_fields:
  "dict_keys current \<subseteq> dict_keys (merge_manual_fields current overrides) \<and>
   (wf_value (PDict current) \<and> wf_value (PDict overrides) \<longrightarrow>
      keys_kept (PDict current) (PDict (merge_manual_fields current overrides)))"
  using merge_keys [of current overrides] merge_keys_kept_aux [of "PDict overrides"]
  by blast

theorem merge_never_removes_fields_witness:
  "wf_value (PDict code_base) \<and> wf_value (PDict code_manual)
   \<and> keys_kept (PDict code_base) (PDict (merge_manual_fields code_base code_manual))
   \<and> dict_keys code_base \<subseteq> dict_keys (merge_manual_fields code_base code_manual)"
  using merge_never_removes_fields [of code_base code_manual]
  by (simp add: code_base_def code_manual_def)

section \<open>Claim about schema validation\<close>

text \<open>
  C9 (validation unavailable). When either of the two imported names is missing,
  \<open>validate_schema\<close> returns, for every tool and every data, the list of exactly one
  string, the fixed message saying that the package is not available; it is never the
  empty list.
\<close>

theorem validation_unavailable_single_error:
  "validate_name rt = None \<or> Draft7Validator rt = None \<Longrightarrow>
     validate_schema rt tool data = [validation_unavailable]
     \<and> length (validate_schema rt tool data) = 1
     \<and> str_contains validation_unavailable ''not available''"
proof -
  assume "validate_name rt = None \<or> Draft7Validator rt = None"
  then have "validate_schema rt tool data = [validation_unavailable]"
    by (auto simp: validate_schema_def split: option.split)
  moreover have "str_contains validation_unavailable ''not available''"
    by (simp add: validation_unavailable_def)
  ultimately show ?thesis by simp
qed

theorem validation_unavailable_single_error_witness:
  "validate_name no_jsonschema = None
   \<and> validate_schema no_jsonschema ''image'' (PDict []) = [validation_unavailable]
   \<and> validate_schema no_jsonschema ''image'' (PDict []) \<noteq> []"
  using validation_unavailable_single_error [of no_jsonschema "''image''" "PDict []"]
  by (simp add: no_jsonschema_def)

section \<open>Facts about strings\<close>







section \<open>Facts about \<^verbatim>\<open>shorten\<close> and the templates\<close>

lemma shorten_returns:
  "0 < width \<Longrightarrow> length (lstrip placeholder) \<le> width \<Longrightarrow> \<exists>r. shorten t width placeholder = Inr r"
  by (simp add: shorten_def wrap_chunks_def)

lemma lstrip_dots: "lstrip ''...'' = ''...''"
  by (simp add: lstrip_def isspace_def)


lemma shorten_1000: "\<exists>r. shorten t 1000 ''...'' = Inr r"
  by (rule shorten_returns) (simp_all add: lstrip_dots)

lemma dict_get_dict_update_Cons:
  "dict_get (dict_update d ((k, v) # items)) k' = dict_get (dict_update (dict_set d k v) items) k'"
  by (simp add: dict_update_def)

lemma dict_update_Nil: "dict_update d [] = d"
  by (simp add: dict_update_def)

lemma dict_update_Cons: "dict_update d ((k, v) # items) = dict_update (dict_set d k v) items"
  by (simp add: dict_update_def)







section \<open>Facts about the duration pattern\<close>

lemma takeWhile_run:
  "list_all P xs \<Longrightarrow> (rest = [] \<or> \<not> P (hd rest)) \<Longrightarrow> takeWhile P (xs @ rest) = xs"
  by (induction xs) (auto simp: takeWhile_eq_Nil_iff)

lemma dropWhile_run:
  "list_all P xs \<Longrightarrow> (rest = [] \<or> \<not> P (hd rest)) \<Longrightarrow> dropWhile P (xs @ rest) = rest"
  by (induction xs) (auto simp: dropWhile_eq_self_iff)


lemma space_not_digit: "isspace c \<Longrightarrow> \<not> re_digit c"
  by (auto simp: isspace_def re_digit_def)




lemma re_search_skip:
  "(\<forall>i<length pre. match_at (drop i (pre @ s)) = None) \<Longrightarrow>
     re_search match_at (pre @ s) = re_search match_at s"
proof (induction pre)
  case Nil
  then show ?case by simp
next
  case (Cons c pre)
  from Cons.prems have 0: "match_at (c # pre @ s) = None" by fastforce
  have "\<forall>i<length pre. match_at (drop i (pre @ s)) = None"
  proof (intro allI impI)
    fix i assume "i < length pre"
    then have "Suc i < length (c # pre)" by simp
    with Cons.prems have "match_at (drop (Suc i) ((c # pre) @ s)) = None" by blast
    then show "match_at (drop i (pre @ s)) = None" by simp
  qed
  with Cons.IH 0 show ?case by simp
qed

lemma re_search_here: "match_at s = Some m \<Longrightarrow> re_search match_at s = Some m"
  by (cases s) auto

lemma re_search_none: "(\<forall>i. match_at (drop i s) = None) \<Longrightarrow> re_search match_at s = None"
proof (induction s)
  case Nil
  then show ?case by (metis drop0 re_search.simps(1))
next
  case (Cons c s)
  from Cons.prems have 0: "match_at (c # s) = None"
    by (metis drop0)
  have "\<forall>i. match_at (drop i s) = None"
  proof
    fix i from Cons.prems have "match_at (drop (Suc i) (c # s)) = None" by blast
    then show "match_at (drop i s) = None" by simp
  qed
  with Cons.IH 0 show ?case by simp
qed












section \<open>Claim about the precedence of the cartoon style\<close>



section \<open>Facts about the size pattern\<close>

lemma digit_not_space: "re_digit c \<Longrightarrow> \<not> isspace c"
  by (auto simp: isspace_def re_digit_def)

lemma separator_plain:
  "sep = CHR ''x'' \<or> sep = CHR 0xD7 \<Longrightarrow> \<not> isspace sep \<and> \<not> re_digit sep"
  by (auto simp: isspace_def re_digit_def)

lemma list_all_takeWhile: "list_all P (takeWhile P xs)"
  by (induction xs) auto

lemma list_all_take: "list_all P xs \<Longrightarrow> list_all P (take n xs)"
  by (auto simp: list_all_iff dest: in_set_takeD)

lemma match_size_at_shape:
  assumes g1: "list_all re_digit g1" "length g1 = 3 \<or> length g1 = 4"
    and w1: "list_all isspace w1" and sep: "sep = CHR ''x'' \<or> sep = CHR 0xD7"
    and w2: "list_all isspace w2"
    and g2: "list_all re_digit g2" "length g2 = 3 \<or> length g2 = 4"
  shows "match_size_at (g1 @ w1 @ sep # w2 @ g2 @ post)
           = Some (g1, take 4 (g2 @ takeWhile re_digit post))"
proof -
  let ?s = "g1 @ w1 @ sep # w2 @ g2 @ post"
  note sp = separator_plain [OF sep]
  have nd: "w1 @ sep # w2 @ g2 @ post = [] \<or> \<not> re_digit (hd (w1 @ sep # w2 @ g2 @ post))"
  proof (cases w1)
    case Nil
    with sp show ?thesis by simp
  next
    case (Cons a w1')
    with w1 show ?thesis by (simp add: space_not_digit)
  qed
  have t1: "takeWhile re_digit ?s = g1" by (rule takeWhile_run [OF g1(1) nd])
  have k1: "take 4 g1 = g1" using g1(2) by auto
  have d1: "drop (length g1) ?s = w1 @ sep # w2 @ g2 @ post" by simp
  have ns: "sep # w2 @ g2 @ post = [] \<or> \<not> isspace (hd (sep # w2 @ g2 @ post))"
    using sp by simp
  have d2: "dropWhile isspace (w1 @ sep # w2 @ g2 @ post) = sep # w2 @ g2 @ post"
    by (rule dropWhile_run [OF w1 ns])
  from g2 obtain c r where c: "g2 = c # r" by (cases g2) auto
  with g2(1) have "\<not> isspace (hd (g2 @ post))" by (simp add: digit_not_space)
  then have ns2: "g2 @ post = [] \<or> \<not> isspace (hd (g2 @ post))" by simp
  have d3: "dropWhile isspace (w2 @ g2 @ post) = g2 @ post"
    by (rule dropWhile_run [OF w2 ns2])
  have t2: "takeWhile re_digit (g2 @ post) = g2 @ takeWhile re_digit post"
    using g2(1) by (simp add: takeWhile_append2 list_all_iff)
  have len: "\<not> length (take 4 (g2 @ takeWhile re_digit post)) < 3"
    using g2(2) by auto
  show ?thesis
    unfolding match_size_at_def Let_def t1 k1 d1 d2 list.case d3 t2
    using g1(2) sep len by auto
qed

lemma match_size_at_pattern: "match_size_at s \<noteq> None \<longleftrightarrow> size_pattern_at s"
proof
  assume "match_size_at s \<noteq> None"
  define g1 where "g1 = take 4 (takeWhile re_digit s)"
  define rest1 where "rest1 = dropWhile isspace (drop (length g1) s)"
  from \<open>match_size_at s \<noteq> None\<close> obtain c r where l1: "\<not> length g1 < 3"
    and r1: "rest1 = c # r" and c: "c = CHR ''x'' \<or> c = CHR 0xD7"
    and l2: "\<not> length (take 4 (takeWhile re_digit (dropWhile isspace r))) < 3"
    unfolding match_size_at_def Let_def g1_def [symmetric] rest1_def [symmetric]
    by (auto split: if_splits list.splits)
  define g2 where "g2 = take 4 (takeWhile re_digit (dropWhile isspace r))"
  have pre1: "prefix g1 s"
    unfolding g1_def by (metis append_take_drop_id prefix_order.trans takeWhile_dropWhile_id prefixI)
  then have s1: "s = g1 @ drop (length g1) s"
    by (metis append_eq_conv_conj prefixE)
  have s2: "drop (length g1) s = takeWhile isspace (drop (length g1) s) @ c # r"
    using r1 unfolding rest1_def by (metis takeWhile_dropWhile_id)
  have s3: "r = takeWhile isspace r @ dropWhile isspace r" by simp
  have pre2: "prefix g2 (dropWhile isspace r)"
    unfolding g2_def by (metis append_take_drop_id prefix_order.trans takeWhile_dropWhile_id prefixI)
  then obtain post where s4: "dropWhile isspace r = g2 @ post" by (auto simp: prefix_def)
  have "s = g1 @ takeWhile isspace (drop (length g1) s) @ c # takeWhile isspace r @ g2 @ post"
    using s1 s2 s3 s4 by metis
  moreover have "list_all re_digit g1" "list_all re_digit g2"
    unfolding g1_def g2_def by (simp_all add: list_all_take list_all_takeWhile)
  moreover have "length g1 = 3 \<or> length g1 = 4" using l1 unfolding g1_def by auto
  moreover have "length g2 = 3 \<or> length g2 = 4" using l2 unfolding g2_def by auto
  moreover have "list_all isspace (takeWhile isspace (drop (length g1) s))"
    "list_all isspace (takeWhile isspace r)" by (simp_all add: list_all_takeWhile)
  ultimately show "size_pattern_at s"
    unfolding size_pattern_at_def using c by blast
next
  assume "size_pattern_at s"
  then obtain g1 w1 sep w2 g2 post where "s = g1 @ w1 @ sep # w2 @ g2 @ post"
    "list_all re_digit g1" "length g1 = 3 \<or> length g1 = 4" "list_all isspace w1"
    "sep = CHR ''x'' \<or> sep = CHR 0xD7" "list_all isspace w2"
    "list_all re_digit g2" "length g2 = 3 \<or> length g2 = 4"
    unfolding size_pattern_at_def by blast
  then show "match_size_at s \<noteq> None"
    by (simp add: match_size_at_shape)
qed

lemma image_size:
  "\<exists>tpl. template_image template0 text t lower = Inr tpl
      \<and> dict_get tpl ''size'' =
          Some (PStr (case search_size text of
                        None \<Rightarrow> ''1024x1024''
                      | Some (g1, g2) \<Rightarrow> g1 @ ''x'' @ g2))"
proof -
  obtain prompt where "shorten t 1000 ''...'' = Inr prompt" using shorten_1000 by blast
  then show ?thesis
    by (simp add: template_image_def Let_def dict_get_dict_set dict_update_Cons
          dict_update_Nil split: option.split prod.split)
qed

text \<open>
  C3 (image size pattern), as the code has it. For the \<open>image\<close> tool the function returns a
  template for every text. If the text holds, at its leftmost occurrence, a group of
  three or four digits, optional whitespace, \<open>x\<close> or the multiplication sign, optional
  whitespace and a second group of three or four digits (taken as long as it can be),
  then \<open>size\<close> is the first group, the letter \<open>x\<close> and the second group: the separator is
  normalised and the whitespace dropped. If the pattern occurs nowhere, \<open>size\<close> is the
  default \<open>1024x1024\<close>.
\<close>

theorem image_size_pattern:
  "\<exists>tpl. natural_to_template utcnow ''image'' text = Inr tpl
      \<and> ((\<forall>i. \<not> size_pattern_at (drop i text))
          \<longrightarrow> dict_get tpl ''size'' = Some (PStr ''1024x1024''))
      \<and> (\<forall>pre g1 w1 sep w2 g2 post.
          text = pre @ g1 @ w1 @ sep # w2 @ g2 @ post
          \<and> list_all re_digit g1 \<and> (length g1 = 3 \<or> length g1 = 4)
          \<and> list_all isspace w1 \<and> (sep = CHR ''x'' \<or> sep = CHR 0xD7) \<and> list_all isspace w2
          \<and> list_all re_digit g2
          \<and> (length g2 = 4 \<or> length g2 = 3 \<and> (post = [] \<or> \<not> re_digit (hd post)))
          \<and> (\<forall>i<length pre. \<not> size_pattern_at (drop i text))
          \<longrightarrow> dict_get tpl ''size'' = Some (PStr (g1 @ ''x'' @ g2)))"
proof -
  let ?template0 = "[(''meta'', PDict [(''created_at'', PStr (utcnow @ ''Z'')),
                                        (''source_text'', PStr text)])]"
  from image_size [of ?template0 "text" "strip text" "str_lower (strip text)"]
  obtain tpl where tpl: "template_image ?template0 text (strip text) (str_lower (strip text)) = Inr tpl"
    and sz: "dict_get tpl ''size'' =
          Some (PStr (case search_size text of
                        None \<Rightarrow> ''1024x1024''
                      | Some (g1, g2) \<Rightarrow> g1 @ ''x'' @ g2))"
    by blast
  have ret: "natural_to_template utcnow ''image'' text = Inr tpl"
    using tpl by (simp add: natural_to_template_def Let_def)
  have none: "((\<forall>i. \<not> size_pattern_at (drop i text))
          \<longrightarrow> dict_get tpl ''size'' = Some (PStr ''1024x1024''))"
  proof
    assume "\<forall>i. \<not> size_pattern_at (drop i text)"
    then have "\<forall>i. match_size_at (drop i text) = None"
      using match_size_at_pattern by blast
    then have "search_size text = None"
      unfolding search_size_def by (rule re_search_none)
    with sz show "dict_get tpl ''size'' = Some (PStr ''1024x1024'')" by simp
  qed
  have some: "(\<forall>pre g1 w1 sep w2 g2 post.
          text = pre @ g1 @ w1 @ sep # w2 @ g2 @ post
          \<and> list_all re_digit g1 \<and> (length g1 = 3 \<or> length g1 = 4)
          \<and> list_all isspace w1 \<and> (sep = CHR ''x'' \<or> sep = CHR 0xD7) \<and> list_all isspace w2
          \<and> list_all re_digit g2
          \<and> (length g2 = 4 \<or> length g2 = 3 \<and> (post = [] \<or> \<not> re_digit (hd post)))
          \<and> (\<forall>i<length pre. \<not> size_pattern_at (drop i text))
          \<longrightarrow> dict_get tpl ''size'' = Some (PStr (g1 @ ''x'' @ g2)))"
  proof (intro allI impI)
    fix pre g1 w1 sep w2 g2 post
    assume h: "text = pre @ g1 @ w1 @ sep # w2 @ g2 @ post
          \<and> list_all re_digit g1 \<and> (length g1 = 3 \<or> length g1 = 4)
          \<and> list_all isspace w1 \<and> (sep = CHR ''x'' \<or> sep = CHR 0xD7) \<and> list_all isspace w2
          \<and> list_all re_digit g2
          \<and> (length g2 = 4 \<or> length g2 = 3 \<and> (post = [] \<or> \<not> re_digit (hd post)))
          \<and> (\<forall>i<length pre. \<not> size_pattern_at (drop i text))"
    then have eq: "text = pre @ g1 @ w1 @ sep # w2 @ g2 @ post"
      and g1: "list_all re_digit g1" "length g1 = 3 \<or> length g1 = 4"
      and w1: "list_all isspace w1" and sep: "sep = CHR ''x'' \<or> sep = CHR 0xD7"
      and w2: "list_all isspace w2" and g2: "list_all re_digit g2"
      and l2: "length g2 = 4 \<or> length g2 = 3 \<and> (post = [] \<or> \<not> re_digit (hd post))"
      and first: "\<forall>i<length pre. \<not> size_pattern_at (drop i text)" by blast+
    from l2 have l2': "length g2 = 3 \<or> length g2 = 4" by blast
    have full: "take 4 (g2 @ takeWhile re_digit post) = g2"
    proof (cases "length g2 = 4")
      case True
      then show ?thesis by simp
    next
      case False
      with l2 have l3: "length g2 = 3" and p: "post = [] \<or> \<not> re_digit (hd post)" by blast+
      from p have "takeWhile re_digit post = []" by (cases post) auto
      with l3 show ?thesis by simp
    qed
    from first have "\<forall>i<length pre. match_size_at (drop i (pre @ g1 @ w1 @ sep # w2 @ g2 @ post)) = None"
      using match_size_at_pattern eq by metis
    then have "search_size text = search_size (g1 @ w1 @ sep # w2 @ g2 @ post)"
      unfolding eq search_size_def by (rule re_search_skip)
    also have "\<dots> = Some (g1, g2)"
      unfolding search_size_def
      by (rule re_search_here) (simp only: match_size_at_shape [OF g1 w1 sep w2 g2 l2'] full)
    finally show "dict_get tpl ''size'' = Some (PStr (g1 @ ''x'' @ g2))"
      using sz by simp
  qed
  from ret none some show ?thesis by blast
qed

lemma no_digit_no_size:
  assumes "list_all (\<lambda>c. \<not> re_digit c) s"
  shows "\<not> size_pattern_at (drop i s)"
proof
  assume "size_pattern_at (drop i s)"
  then obtain g1 rest where eq: "drop i s = g1 @ rest" and dg: "list_all re_digit g1"
    and len: "length g1 = 3 \<or> length g1 = 4"
    unfolding size_pattern_at_def by blast
  from len have ne: "g1 \<noteq> []" by auto
  with dg have "re_digit (hd g1)" by (cases g1) auto
  moreover from ne eq have "hd g1 \<in> set (drop i s)" by (cases g1) auto
  then have "hd g1 \<in> set s" by (rule in_set_dropD)
  ultimately show False using assms by (auto simp: list_all_iff)
qed

theorem image_size_pattern_witness:
  "(''poster 1920 '' @ [CHR 0xD7] @ '' 1080 px'') = ''poster '' @ ''1920'' @ '' '' @ CHR 0xD7 # '' '' @ ''1080'' @ '' px''
   \<and> list_all re_digit ''1920'' \<and> list_all isspace '' '' \<and> list_all re_digit ''1080''
   \<and> list_all (\<lambda>c. \<not> re_digit c) ''poster ''
   \<and> (\<exists>tpl. natural_to_template ''2024-05-01T12:00:00'' ''image'' (''poster 1920 '' @ [CHR 0xD7] @ '' 1080 px'') = Inr tpl
          \<and> dict_get tpl ''size'' = Some (PStr ''1920x1080''))
   \<and> list_all (\<lambda>c. \<not> re_digit c) ''a red fox''
   \<and> (\<exists>tpl. natural_to_template ''2024-05-01T12:00:00'' ''image'' ''a red fox'' = Inr tpl
          \<and> dict_get tpl ''size'' = Some (PStr ''1024x1024''))"
proof -
  let ?text = "(''poster 1920 '' @ [CHR 0xD7] @ '' 1080 px'')"
  have split: "?text = ''poster '' @ ''1920'' @ '' '' @ CHR 0xD7 # '' '' @ ''1080'' @ '' px''"
    by simp
  have d1: "list_all re_digit ''1920''" and d2: "list_all re_digit ''1080''"
    by (simp_all add: re_digit_def)
  have w: "list_all isspace '' ''" by (simp add: isspace_def)
  have l1: "length ''1920'' = 3 \<or> length ''1920'' = 4" by simp
  have l2: "length ''1080'' = 4 \<or> length ''1080'' = 3 \<and> ('' px'' = [] \<or> \<not> re_digit (hd '' px''))"
    by simp
  have sep: "CHR 0xD7 = CHR ''x'' \<or> CHR 0xD7 = CHR 0xD7" by simp
  have np: "list_all (\<lambda>c. \<not> re_digit c) ''poster ''" by (simp add: re_digit_def)
  have first: "\<forall>i<length ''poster ''. \<not> size_pattern_at (drop i ?text)"
  proof (intro allI impI)
    fix i assume i: "i < length ''poster ''"
    show "\<not> size_pattern_at (drop i ?text)"
    proof
      assume "size_pattern_at (drop i ?text)"
      then have m: "match_size_at (drop i ?text) \<noteq> None"
        using match_size_at_pattern by blast
      from i have "i \<in> set [0, 1, 2, 3, 4, 5, 6]" by auto
      with m show False
        by (auto simp: match_size_at_def Let_def re_digit_def)
    qed
  qed
  have "\<exists>tpl. natural_to_template ''2024-05-01T12:00:00'' ''image'' ?text = Inr tpl
      \<and> ((\<forall>i. \<not> size_pattern_at (drop i ?text))
          \<longrightarrow> dict_get tpl ''size'' = Some (PStr ''1024x1024''))
      \<and> (\<forall>pre g1 w1 sep w2 g2 post.
          ?text = pre @ g1 @ w1 @ sep # w2 @ g2 @ post
          \<and> list_all re_digit g1 \<and> (length g1 = 3 \<or> length g1 = 4)
          \<and> list_all isspace w1 \<and> (sep = CHR ''x'' \<or> sep = CHR 0xD7) \<and> list_all isspace w2
          \<and> list_all re_digit g2
          \<and> (length g2 = 4 \<or> length g2 = 3 \<and> (post = [] \<or> \<not> re_digit (hd post)))
          \<and> (\<forall>i<length pre. \<not> size_pattern_at (drop i ?text))
          \<longrightarrow> dict_get tpl ''size'' = Some (PStr (g1 @ ''x'' @ g2)))"
    by (rule image_size_pattern [of "''2024-05-01T12:00:00''" ?text])
  then obtain tpl where tp: "natural_to_template ''2024-05-01T12:00:00'' ''image'' ?text = Inr tpl
      \<and> ((\<forall>i. \<not> size_pattern_at (drop i ?text))
          \<longrightarrow> dict_get tpl ''size'' = Some (PStr ''1024x1024''))
      \<and> (\<forall>pre g1 w1 sep w2 g2 post.
          ?text = pre @ g1 @ w1 @ sep # w2 @ g2 @ post
          \<and> list_all re_digit g1 \<and> (length g1 = 3 \<or> length g1 = 4)
          \<and> list_all isspace w1 \<and> (sep = CHR ''x'' \<or> sep = CHR 0xD7) \<and> list_all isspace w2
          \<and> list_all re_digit g2
          \<and> (length g2 = 4 \<or> length g2 = 3 \<and> (post = [] \<or> \<not> re_digit (hd post)))
          \<and> (\<forall>i<length pre. \<not> size_pattern_at (drop i ?text))
          \<longrightarrow> dict_get tpl ''size'' = Some (PStr (g1 @ ''x'' @ g2)))" ..
  from tp have ret: "natural_to_template ''2024-05-01T12:00:00'' ''image'' ?text = Inr tpl"
    by (rule conjunct1)
  from tp have gen: "(\<forall>pre g1 w1 sep w2 g2 post.
          ?text = pre @ g1 @ w1 @ sep # w2 @ g2 @ post
          \<and> list_all re_digit g1 \<and> (length g1 = 3 \<or> length g1 = 4)
          \<and> list_all isspace w1 \<and> (sep = CHR ''x'' \<or> sep = CHR 0xD7) \<and> list_all isspace w2
          \<and> list_all re_digit g2
          \<and> (length g2 = 4 \<or> length g2 = 3 \<and> (post = [] \<or> \<not> re_digit (hd post)))
          \<and> (\<forall>i<length pre. \<not> size_pattern_at (drop i ?text))
          \<longrightarrow> dict_get tpl ''size'' = Some (PStr (g1 @ ''x'' @ g2)))"
    by (rule conjunct2 [THEN conjunct2])
  from gen [rule_format, of "''poster ''" "''1920''" "'' ''" "CHR 0xD7" "'' ''" "''1080''" "'' px''",
            OF conjI [OF split conjI [OF d1 conjI [OF l1 conjI [OF w conjI [OF sep
               conjI [OF w conjI [OF d2 conjI [OF l2 first]]]]]]]]]
  have "dict_get tpl ''size'' = Some (PStr ''1920x1080'')" by simp
  with ret have A: "\<exists>tpl. natural_to_template ''2024-05-01T12:00:00'' ''image'' ?text = Inr tpl
          \<and> dict_get tpl ''size'' = Some (PStr ''1920x1080'')" by blast
  have nd: "list_all (\<lambda>c. \<not> re_digit c) ''a red fox''" by (simp add: re_digit_def)
  have "\<exists>tpl. natural_to_template ''2024-05-01T12:00:00'' ''image'' ''a red fox'' = Inr tpl
      \<and> ((\<forall>i. \<not> size_pattern_at (drop i ''a red fox''))
          \<longrightarrow> dict_get tpl ''size'' = Some (PStr ''1024x1024''))
      \<and> (\<forall>pre g1 w1 sep w2 g2 post.
          ''a red fox'' = pre @ g1 @ w1 @ sep # w2 @ g2 @ post
          \<and> list_all re_digit g1 \<and> (length g1 = 3 \<or> length g1 = 4)
          \<and> list_all isspace w1 \<and> (sep = CHR ''x'' \<or> sep = CHR 0xD7) \<and> list_all isspace w2
          \<and> list_all re_digit g2
          \<and> (length g2 = 4 \<or> length g2 = 3 \<and> (post = [] \<or> \<not> re_digit (hd post)))
          \<and> (\<forall>i<length pre. \<not> size_pattern_at (drop i ''a red fox''))
          \<longrightarrow> dict_get tpl ''size'' = Some (PStr (g1 @ ''x'' @ g2)))"
    by (rule image_size_pattern [of "''2024-05-01T12:00:00''" "''a red fox''"])
  then obtain tpl2 where tp2: "natural_to_template ''2024-05-01T12:00:00'' ''image'' ''a red fox'' = Inr tpl2
      \<and> ((\<forall>i. \<not> size_pattern_at (drop i ''a red fox''))
          \<longrightarrow> dict_get tpl2 ''size'' = Some (PStr ''1024x1024''))
      \<and> (\<forall>pre g1 w1 sep w2 g2 post.
          ''a red fox'' = pre @ g1 @ w1 @ sep # w2 @ g2 @ post
          \<and> list_all re_digit g1 \<and> (length g1 = 3 \<or> length g1 = 4)
          \<and> list_all isspace w1 \<and> (sep = CHR ''x'' \<or> sep = CHR 0xD7) \<and> list_all isspace w2
          \<and> list_all re_digit g2
          \<and> (length g2 = 4 \<or> length g2 = 3 \<and> (post = [] \<or> \<not> re_digit (hd post)))
          \<and> (\<forall>i<length pre. \<not> size_pattern_at (drop i ''a red fox''))
          \<longrightarrow> dict_get tpl2 ''size'' = Some (PStr (g1 @ ''x'' @ g2)))" ..
  from tp2 have ret2: "natural_to_template ''2024-05-01T12:00:00'' ''image'' ''a red fox'' = Inr tpl2"
    by (rule conjunct1)
  from tp2 have "((\<forall>i. \<not> size_pattern_at (drop i ''a red fox''))
          \<longrightarrow> dict_get tpl2 ''size'' = Some (PStr ''1024x1024''))"
    by (rule conjunct2 [THEN conjunct1])
  moreover have "\<forall>i. \<not> size_pattern_at (drop i ''a red fox'')"
    using no_digit_no_size [OF nd] by (rule allI)
  ultimately have "dict_get tpl2 ''size'' = Some (PStr ''1024x1024'')" by (rule mp)
  with ret2 have B: "\<exists>tpl. natural_to_template ''2024-05-01T12:00:00'' ''image'' ''a red fox'' = Inr tpl
          \<and> dict_get tpl ''size'' = Some (PStr ''1024x1024'')" by blast
  show ?thesis
    by (intro conjI) (rule split d1 d2 w np A nd B)+
qed

text \<open>
  C3 as the specification words it fails in two ways. A pattern of two-digit groups is
  not recognised: \<open>"icon 64x64"\<close> keeps the default size and does not get \<open>64x64\<close>. And a
  recognised pattern is not copied verbatim: \<open>1920\<close>, the multiplication sign and \<open>1080\<close>
  give \<open>1920x1080\<close>, with the letter \<open>x\<close>.
\<close>

theorem image_size_pattern_counterexample:
  "(\<exists>tpl. natural_to_template ''2024-05-01T12:00:00'' ''image'' ''icon 64x64'' = Inr tpl
       \<and> dict_get tpl ''size'' = Some (PStr ''1024x1024'')
       \<and> dict_get tpl ''size'' \<noteq> Some (PStr ''64x64''))
   \<and> (\<exists>tpl. natural_to_template ''2024-05-01T12:00:00'' ''image'' (''1920'' @ [CHR 0xD7] @ ''1080'') = Inr tpl
       \<and> dict_get tpl ''size'' = Some (PStr ''1920x1080'')
       \<and> dict_get tpl ''size'' \<noteq> Some (PStr (''1920'' @ [CHR 0xD7] @ ''1080'')))"
proof -
  have s1: "search_size ''icon 64x64'' = None"
    by (simp add: search_size_def match_size_at_def Let_def re_digit_def)
  have s2: "search_size (''1920'' @ [CHR 0xD7] @ ''1080'') = Some (''1920'', ''1080'')"
    by (simp add: search_size_def match_size_at_def Let_def re_digit_def isspace_def)
  from image_size [of "[(''meta'', PDict [(''created_at'', PStr (''2024-05-01T12:00:00'' @ ''Z'')),
                                        (''source_text'', PStr ''icon 64x64'')])]"
         "''icon 64x64''" "strip ''icon 64x64''" "str_lower (strip ''icon 64x64'')"]
  obtain tpl1 where r1: "natural_to_template ''2024-05-01T12:00:00'' ''image'' ''icon 64x64'' = Inr tpl1"
    and z1: "dict_get tpl1 ''size'' = Some (PStr ''1024x1024'')"
    unfolding s1 by (auto simp: natural_to_template_def Let_def)
  from z1 have "dict_get tpl1 ''size'' \<noteq> Some (PStr ''64x64'')" by simp
  with r1 z1
  have A: "\<exists>tpl. natural_to_template ''2024-05-01T12:00:00'' ''image'' ''icon 64x64'' = Inr tpl
       \<and> dict_get tpl ''size'' = Some (PStr ''1024x1024'')
       \<and> dict_get tpl ''size'' \<noteq> Some (PStr ''64x64'')" by blast
  from image_size [of "[(''meta'', PDict [(''created_at'', PStr (''2024-05-01T12:00:00'' @ ''Z'')),
                              (''source_text'', PStr (''1920'' @ [CHR 0xD7] @ ''1080''))])]"
         "''1920'' @ [CHR 0xD7] @ ''1080''" "strip (''1920'' @ [CHR 0xD7] @ ''1080'')"
         "str_lower (strip (''1920'' @ [CHR 0xD7] @ ''1080''))"]
  obtain tpl2 where r2: "natural_to_template ''2024-05-01T12:00:00'' ''image''
                            (''1920'' @ [CHR 0xD7] @ ''1080'') = Inr tpl2"
    and z2: "dict_get tpl2 ''size'' = Some (PStr ''1920x1080'')"
    unfolding s2 by (auto simp: natural_to_template_def Let_def)
  from z2 have "dict_get tpl2 ''size'' \<noteq> Some (PStr (''1920'' @ [CHR 0xD7] @ ''1080''))" by simp
  with r2 z2
  have B: "\<exists>tpl. natural_to_template ''2024-05-01T12:00:00'' ''image'' (''1920'' @ [CHR 0xD7] @ ''1080'') = Inr tpl
       \<and> dict_get tpl ''size'' = Some (PStr ''1920x1080'')
       \<and> dict_get tpl ''size'' \<noteq> Some (PStr (''1920'' @ [CHR 0xD7] @ ''1080''))" by blast
  from A B show ?thesis by (rule conjI)
qed

section \<open>Facts about whitespace collapsing\<close>















section \<open>Facts about \<^verbatim>\<open>shorten\<close> on collapsed text\<close>















lemma fit_placeholder_some:
  "fit_placeholder width placeholder rev_line cur_len = Some line \<Longrightarrow>
   cur_len = sum_list (map length rev_line) \<Longrightarrow>
     (\<exists>p. line = p @ placeholder) \<and> length line \<le> width"
proof (induction rev_line arbitrary: cur_len)
  case Nil
  then show ?case by simp
next
  case (Cons c rev_line)
  show ?case
  proof (cases "strip c \<noteq> [] \<and> cur_len + length placeholder \<le> width")
    case True
    with Cons.prems(1) have line: "line = concat (rev (c # rev_line)) @ placeholder" by auto
    have "length (concat (rev (c # rev_line))) = sum_list (map length (c # rev_line))"
      by (simp add: length_concat rev_map [symmetric] del: rev.simps)
    with line True Cons.prems(2) show ?thesis by auto
  next
    case False
    with Cons.prems(1)
    have "fit_placeholder width placeholder rev_line (cur_len - length c) = Some line" by auto
    moreover from Cons.prems(2) have "cur_len - length c = sum_list (map length rev_line)" by simp
    ultimately show ?thesis by (rule Cons.IH)
  qed
qed







section \<open>Where \<^verbatim>\<open>shorten\<close> cuts\<close>























lemma split_chunks_Nil: "split_chunks behind [] = []"
  by simp






section \<open>Claim about the truncation of the image prompt\<close>










section \<open>Facts about the merge on the heap\<close>

lemma prefix_length: "take (length h) h' = h \<Longrightarrow> length h \<le> length h'"
proof -
  assume "take (length h) h' = h"
  then have "length (take (length h) h') = length h" by simp
  then show ?thesis by simp
qed

lemma prefix_nth: "take (length h) h' = h \<Longrightarrow> a < length h \<Longrightarrow> h' ! a = h ! a"
proof -
  assume t: "take (length h) h' = h" and a: "a < length h"
  have "take (length h) h' ! a = h' ! a" using a by simp
  with t show ?thesis by simp
qed

lemma heap_get_prefix:
  "take (length h) h' = h \<Longrightarrow> heap_get h a = Some x \<Longrightarrow> heap_get h' a = Some x"
proof -
  assume t: "take (length h) h' = h" and g: "heap_get h a = Some x"
  from g have a: "a < length h" and x: "h ! a = x"
    by (auto simp: heap_get_def split: if_splits)
  from t have "length h \<le> length h'" by (rule prefix_length)
  moreover from t a have "h' ! a = h ! a" by (rule prefix_nth)
  ultimately show ?thesis using a x by (simp add: heap_get_def)
qed

lemma prefix_take:
  "n \<le> length h \<Longrightarrow> take (length h) h' = h \<Longrightarrow> take n h' = take n h"
proof -
  assume n: "n \<le> length h" and t: "take (length h) h' = h"
  have "take n (take (length h) h') = take n h'" using n by (simp add: min_def)
  with t show ?thesis by simp
qed

lemma heap_setitem_length: "length (heap_setitem h a k v) = length h"
  by (simp add: heap_setitem_def split: option.split hobj.split)

lemma heap_setitem_take: "n \<le> a \<Longrightarrow> take n (heap_setitem h a k v) = take n h"
  by (simp add: heap_setitem_def split: option.split hobj.split)

lemma heap_setitem_dict:
  "dict_items h a = Some d \<Longrightarrow> dict_items (heap_setitem h a k v) a = Some (dict_set d k v)"
  by (auto simp: dict_items_def heap_setitem_def heap_get_def split: if_splits option.splits hobj.splits)

text \<open>The loop keeps every object below the new dict as it was.\<close>

lemma merge_items_frame:
  assumes rec: "\<And>h b m h' r. recurse h b m = Some (h', r) \<Longrightarrow> take (length h) h' = h"
  shows "merge_items recurse h merged items = Some (h', r) \<Longrightarrow> n \<le> merged \<Longrightarrow> n \<le> length h
           \<Longrightarrow> take n h' = take n h \<and> r = merged \<and> length h \<le> length h'"
proof (induction items arbitrary: h)
  case Nil
  then show ?case by simp
next
  case (Cons kv items)
  obtain k v where kv: "kv = (k, v)" by (cases kv)
  show ?case
  proof (cases "is_empty_hval v")
    case True
    with Cons.prems kv have "merge_items recurse h merged items = Some (h', r)" by simp
    from Cons.IH [OF this Cons.prems(2,3)] show ?thesis .
  next
    case False
    show ?thesis
    proof (cases "\<exists>a c. dict_address h v = Some a
                    \<and> Option.bind (heap_getitem h merged k) (dict_address h) = Some c")
      case True
      then obtain a c where a: "dict_address h v = Some a"
        and c: "Option.bind (heap_getitem h merged k) (dict_address h) = Some c" by blast
      from Cons.prems(1) kv False a c obtain h1 r1 where r1: "recurse h c a = Some (h1, r1)"
        and rest: "merge_items recurse (heap_setitem h1 merged k (HRef r1)) merged items = Some (h', r)"
        by (auto split: option.splits)
      from rec [OF r1] have p1: "take (length h) h1 = h" .
      then have l1: "length h \<le> length h1" by (rule prefix_length)
      let ?h2 = "heap_setitem h1 merged k (HRef r1)"
      have n2: "n \<le> length ?h2" using Cons.prems(3) l1 by (simp add: heap_setitem_length)
      from Cons.IH [OF rest Cons.prems(2) n2]
      have "take n h' = take n ?h2" and "r = merged" and "length ?h2 \<le> length h'" by simp_all
      moreover have "take n ?h2 = take n h1" by (rule heap_setitem_take [OF Cons.prems(2)])
      moreover have "take n h1 = take n h" by (rule prefix_take [OF Cons.prems(3) p1])
      ultimately show ?thesis using l1 by (simp add: heap_setitem_length)
    next
      case nb: False
      let ?h2 = "heap_setitem h merged k v"
      from Cons.prems(1) kv False nb
      have rest: "merge_items recurse ?h2 merged items = Some (h', r)"
        by (auto split: option.splits)
      have n2: "n \<le> length ?h2" using Cons.prems(3) by (simp add: heap_setitem_length)
      from Cons.IH [OF rest Cons.prems(2) n2]
      have "take n h' = take n ?h2" and "r = merged" and "length ?h2 \<le> length h'" by simp_all
      moreover have "take n ?h2 = take n h" by (rule heap_setitem_take [OF Cons.prems(2)])
      ultimately show ?thesis by (simp add: heap_setitem_length)
    qed
  qed
qed

lemma merge_heap_frame:
  "merge_heap depth h base manual = Some (h', r) \<Longrightarrow>
     take (length h) h' = h \<and> r = length h \<and> r < length h'"
proof (induction depth arbitrary: h base manual h' r)
  case 0
  then show ?case by simp
next
  case (Suc depth)
  from Suc.prems obtain bi mi where bi: "dict_items h base = Some bi"
    and mi: "dict_items h manual = Some mi"
    and run: "merge_items (merge_heap depth) (h @ [HDict bi]) (length h) mi = Some (h', r)"
    by (auto split: option.splits)
  have rec: "\<And>h b m h' r. merge_heap depth h b m = Some (h', r) \<Longrightarrow> take (length h) h' = h"
    using Suc.IH by blast
  from merge_items_frame [where n = "length h", OF rec run]
  have "take (length h) h' = take (length h) (h @ [HDict bi])" and "r = length h"
    and "length (h @ [HDict bi]) \<le> length h'" by simp_all
  then show ?case by simp
qed

text \<open>The new dict is still a dict when the loop ends.\<close>

lemma dict_items_prefix:
  "take (length h) h' = h \<Longrightarrow> dict_items h a = Some d \<Longrightarrow> dict_items h' a = Some d"
proof -
  assume t: "take (length h) h' = h" and d: "dict_items h a = Some d"
  from d have "heap_get h a = Some (HDict d)"
    by (auto simp: dict_items_def split: option.splits hobj.splits)
  then have "heap_get h' a = Some (HDict d)" by (rule heap_get_prefix [OF t])
  then show ?thesis by (simp add: dict_items_def)
qed

lemma merge_items_dict:
  assumes rec: "\<And>h b m h' r. recurse h b m = Some (h', r) \<Longrightarrow> take (length h) h' = h"
  shows "merge_items recurse h merged items = Some (h', r) \<Longrightarrow> dict_items h merged \<noteq> None
           \<Longrightarrow> dict_items h' merged \<noteq> None"
proof (induction items arbitrary: h)
  case Nil
  then show ?case by simp
next
  case (Cons kv items)
  obtain k v where kv: "kv = (k, v)" by (cases kv)
  from Cons.prems(2) obtain d where d: "dict_items h merged = Some d" by blast
  show ?case
  proof (cases "is_empty_hval v")
    case True
    with Cons.prems kv have "merge_items recurse h merged items = Some (h', r)" by simp
    from Cons.IH [OF this Cons.prems(2)] show ?thesis .
  next
    case False
    show ?thesis
    proof (cases "\<exists>a c. dict_address h v = Some a
                    \<and> Option.bind (heap_getitem h merged k) (dict_address h) = Some c")
      case True
      then obtain a c where a: "dict_address h v = Some a"
        and c: "Option.bind (heap_getitem h merged k) (dict_address h) = Some c" by blast
      from Cons.prems(1) kv False a c obtain h1 r1 where r1: "recurse h c a = Some (h1, r1)"
        and rest: "merge_items recurse (heap_setitem h1 merged k (HRef r1)) merged items = Some (h', r)"
        by (auto split: option.splits)
      from rec [OF r1] have p1: "take (length h) h1 = h" .
      have "dict_items h1 merged = Some d" by (rule dict_items_prefix [OF p1 d])
      then have "dict_items (heap_setitem h1 merged k (HRef r1)) merged \<noteq> None"
        by (simp add: heap_setitem_dict)
      from Cons.IH [OF rest this] show ?thesis .
    next
      case nb: False
      from Cons.prems(1) kv False nb
      have rest: "merge_items recurse (heap_setitem h merged k v) merged items = Some (h', r)"
        by (auto split: option.splits)
      from d have "dict_items (heap_setitem h merged k v) merged \<noteq> None"
        by (simp add: heap_setitem_dict)
      from Cons.IH [OF rest this] show ?thesis .
    qed
  qed
qed

lemma merge_heap_dict:
  "merge_heap depth h base manual = Some (h', r) \<Longrightarrow> dict_items h' r \<noteq> None"
proof (cases depth)
  case 0
  assume "merge_heap depth h base manual = Some (h', r)"
  with 0 show ?thesis by simp
next
  case (Suc n)
  assume "merge_heap depth h base manual = Some (h', r)"
  with Suc obtain bi mi where
    run: "merge_items (merge_heap n) (h @ [HDict bi]) (length h) mi = Some (h', r)"
    by (auto split: option.splits)
  have rec: "\<And>h b m h' r. merge_heap n h b m = Some (h', r) \<Longrightarrow> take (length h) h' = h"
    using merge_heap_frame by blast
  have d: "dict_items (h @ [HDict bi]) (length h) \<noteq> None"
    by (simp add: dict_items_def heap_get_def)
  from merge_items_frame [where n = "length h", OF rec run] have "r = length h" by simp
  with merge_items_dict [OF rec run d] show ?thesis by simp
qed

text \<open>With depth to spare the call returns.\<close>

lemma depth_ok_prefix:
  "take (length h) h' = h \<Longrightarrow> depth_ok depth h a \<Longrightarrow> depth_ok depth h' a"
proof (induction depth arbitrary: a)
  case 0
  then show ?case by simp
next
  case (Suc depth)
  from Suc.prems(2) obtain items where g: "heap_get h a = Some (HDict items)"
    and ok: "list_all (\<lambda>kv. item_ok (depth_ok depth h) h (snd kv)) items"
    by (auto split: option.splits hobj.splits)
  have g': "heap_get h' a = Some (HDict items)" by (rule heap_get_prefix [OF Suc.prems(1) g])
  have "\<And>v. item_ok (depth_ok depth h) h v \<Longrightarrow> item_ok (depth_ok depth h') h' v"
  proof -
    fix v assume i: "item_ok (depth_ok depth h) h v"
    show "item_ok (depth_ok depth h') h' v"
    proof (cases v)
      case (HRef c)
      with i obtain x where x: "heap_get h c = Some x" by (auto split: option.splits)
      have x': "heap_get h' c = Some x" by (rule heap_get_prefix [OF Suc.prems(1) x])
      show ?thesis
      proof (cases x)
        case (HDict d)
        with i HRef x have "depth_ok depth h c" by simp
        then have "depth_ok depth h' c" by (rule Suc.IH [OF Suc.prems(1)])
        with HRef x' HDict show ?thesis by simp
      next
        case (HList l)
        with HRef x' show ?thesis by simp
      qed
    qed simp_all
  qed
  with ok have "list_all (\<lambda>kv. item_ok (depth_ok depth h') h' (snd kv)) items"
    by (simp add: list_all_iff)
  with g' show ?case by simp
qed

lemma merge_items_returns:
  assumes rec_frame: "\<And>h b m h' r. recurse h b m = Some (h', r) \<Longrightarrow> take (length h) h' = h"
    and rec_total: "\<And>h b m. dict_items h b \<noteq> None \<Longrightarrow> depth_ok depth h m \<Longrightarrow> recurse h b m \<noteq> None"
  shows "list_all (\<lambda>kv. item_ok (depth_ok depth h0) h0 (snd kv)) items \<Longrightarrow>
         take (length h0) h = h0 \<Longrightarrow> length h0 \<le> merged \<Longrightarrow> dict_items h merged \<noteq> None \<Longrightarrow>
           merge_items recurse h merged items \<noteq> None"
proof (induction items arbitrary: h)
  case Nil
  then show ?case by simp
next
  case (Cons kv items)
  obtain k v where kv: "kv = (k, v)" by (cases kv)
  from Cons.prems(1) kv have okv: "item_ok (depth_ok depth h0) h0 v"
    and oks: "list_all (\<lambda>kv. item_ok (depth_ok depth h0) h0 (snd kv)) items" by simp_all
  from Cons.prems(4) obtain d where d: "dict_items h merged = Some d" by blast
  show ?case
  proof (cases "is_empty_hval v")
    case True
    with kv Cons.IH [OF oks Cons.prems(2,3,4)] show ?thesis by simp
  next
    case False
    show ?thesis
    proof (cases "\<exists>a c. dict_address h v = Some a
                    \<and> Option.bind (heap_getitem h merged k) (dict_address h) = Some c")
      case True
      then obtain a c where a: "dict_address h v = Some a"
        and c: "Option.bind (heap_getitem h merged k) (dict_address h) = Some c" by blast
      from a have v: "v = HRef a"
        by (auto simp: dict_address_def split: hval.splits option.splits hobj.splits)
      from okv v obtain x where x: "heap_get h0 a = Some x" by (auto split: option.splits)
      have x': "heap_get h a = Some x" by (rule heap_get_prefix [OF Cons.prems(2) x])
      with a v obtain ad where "x = HDict ad"
        by (auto simp: dict_address_def split: hobj.splits)
      with okv v x have "depth_ok depth h0 a" by simp
      then have da: "depth_ok depth h a" by (rule depth_ok_prefix [OF Cons.prems(2)])
      from c obtain cur where "heap_getitem h merged k = Some cur" "dict_address h cur = Some c"
        by (auto simp: bind_eq_Some_conv)
      then have "dict_items h c \<noteq> None"
        by (auto simp: dict_address_def dict_items_def split: hval.splits option.splits hobj.splits)
      from rec_total [OF this da] obtain h1 r1 where r1: "recurse h c a = Some (h1, r1)" by auto
      from rec_frame [OF r1] have p1: "take (length h) h1 = h" .
      let ?h2 = "heap_setitem h1 merged k (HRef r1)"
      from d have "heap_get h merged = Some (HDict d)"
        by (auto simp: dict_items_def split: option.splits hobj.splits)
      then have "heap_get h1 merged = Some (HDict d)" by (rule heap_get_prefix [OF p1])
      then have "dict_items h1 merged = Some d" by (simp add: dict_items_def)
      then have d2: "dict_items ?h2 merged \<noteq> None" by (simp add: heap_setitem_dict)
      have l0: "length h0 \<le> length h" using Cons.prems(2) by (rule prefix_length)
      have "take (length h0) h1 = take (length h0) h" by (rule prefix_take [OF l0 p1])
      with Cons.prems(2) have "take (length h0) h1 = h0" by simp
      then have p2: "take (length h0) ?h2 = h0"
        using heap_setitem_take [OF Cons.prems(3), of h1 k "HRef r1"] by simp
      from Cons.IH [OF oks p2 Cons.prems(3) d2] kv False a c r1 show ?thesis by simp
    next
      case nb: False
      let ?h2 = "heap_setitem h merged k v"
      from d have d2: "dict_items ?h2 merged \<noteq> None" by (simp add: heap_setitem_dict)
      have p2: "take (length h0) ?h2 = h0"
        using heap_setitem_take [OF Cons.prems(3), of h k v] Cons.prems(2) by simp
      from nb have "merge_items recurse h merged ((k, v) # items)
                      = merge_items recurse ?h2 merged items"
        using False by (auto split: option.splits)
      with Cons.IH [OF oks p2 Cons.prems(3) d2] kv show ?thesis by simp
    qed
  qed
qed

lemma merge_heap_returns:
  "dict_items h base \<noteq> None \<Longrightarrow> depth_ok depth h manual \<Longrightarrow>
     merge_heap depth h base manual \<noteq> None"
proof (induction depth arbitrary: h base manual)
  case 0
  then show ?case by simp
next
  case (Suc depth)
  from Suc.prems(1) obtain bi where bi: "dict_items h base = Some bi" by blast
  from Suc.prems(2) obtain mi where g: "heap_get h manual = Some (HDict mi)"
    and ok: "list_all (\<lambda>kv. item_ok (depth_ok depth h) h (snd kv)) mi"
    by (auto split: option.splits hobj.splits)
  from g have mi: "dict_items h manual = Some mi" by (simp add: dict_items_def)
  have rec_frame: "\<And>h b m h' r. merge_heap depth h b m = Some (h', r) \<Longrightarrow> take (length h) h' = h"
    using merge_heap_frame by blast
  have rec_total: "\<And>h b m. dict_items h b \<noteq> None \<Longrightarrow> depth_ok depth h m
                     \<Longrightarrow> merge_heap depth h b m \<noteq> None"
    by (rule Suc.IH)
  have d: "dict_items (h @ [HDict bi]) (length h) \<noteq> None"
    by (simp add: dict_items_def heap_get_def)
  have "merge_items (merge_heap depth) (h @ [HDict bi]) (length h) mi \<noteq> None"
    by (rule merge_items_returns [OF rec_frame rec_total ok _ _ d]) simp_all
  with bi mi show ?case by simp
qed
lemma audio_heap_merge:
  "merge_heap 2 audio_heap 1 3
     = Some (audio_heap @ [HDict [(''audio'', HRef 5)],
                           HDict [(''music'', HBool True), (''narration'', HBool False)]], 4)"
  by (simp add: audio_heap_def numeral_2_eq_2 dict_items_def heap_get_def dict_address_def
        heap_getitem_def heap_setitem_def nth_append)

lemma audio_heap_depth: "depth_ok 2 audio_heap 3"
  by (simp add: audio_heap_def numeral_2_eq_2 heap_get_def)

lemma audio_heap_base: "dict_items audio_heap 1 = Some [(''audio'', HRef 0)]"
  by (simp add: audio_heap_def dict_items_def heap_get_def)

text \<open>
  C8 (merge purity). When \<^verbatim>\<open>merge_manual_fields(current, overrides)\<close> returns, every
  object that existed before the call is what it was: the heap before the call is a
  prefix of the heap after it, so \<open>current\<close>, the dicts nested in it and \<open>overrides\<close> are
  unchanged. The result is a dict at a new address, one that was not on the heap before.
  And the call does return when \<open>current\<close> is a dict and \<open>overrides\<close> is a dict nested no
  deeper than the recursion limit.
\<close>

theorem merge_purity:
  "(\<forall>h' merged. merge_heap depth h current overrides = Some (h', merged) \<longrightarrow>
      take (length h) h' = h \<and> merged = length h \<and> dict_items h' merged \<noteq> None)
   \<and> (dict_items h current \<noteq> None \<and> depth_ok depth h overrides \<longrightarrow>
        merge_heap depth h current overrides \<noteq> None)"
proof (intro conjI allI impI)
  fix h' merged assume run: "merge_heap depth h current overrides = Some (h', merged)"
  from merge_heap_frame [OF run] show "take (length h) h' = h" by (rule conjunct1)
  from merge_heap_frame [OF run] show "merged = length h" by simp
  from run show "dict_items h' merged \<noteq> None" by (rule merge_heap_dict)
next
  assume "dict_items h current \<noteq> None \<and> depth_ok depth h overrides"
  then show "merge_heap depth h current overrides \<noteq> None"
    by (simp add: merge_heap_returns)
qed

theorem merge_purity_witness:
  "dict_items audio_heap 1 \<noteq> None \<and> depth_ok 2 audio_heap 3
   \<and> merge_heap 2 audio_heap 1 3
       = Some (audio_heap @ [HDict [(''audio'', HRef 5)],
                             HDict [(''music'', HBool True), (''narration'', HBool False)]], 4)
   \<and> take (length audio_heap)
        (audio_heap @ [HDict [(''audio'', HRef 5)],
                       HDict [(''music'', HBool True), (''narration'', HBool False)]])
       = audio_heap
   \<and> 4 = length audio_heap
   \<and> dict_items (audio_heap @ [HDict [(''audio'', HRef 5)],
                     HDict [(''music'', HBool True), (''narration'', HBool False)]]) 4 \<noteq> None"
  using merge_purity [of 2 audio_heap 1 3] audio_heap_merge audio_heap_depth audio_heap_base
  by simp
end
